theory Spec2Isabelle
  imports Complex_Main
begin

section \<open>Pieces and board (js/chess-pieces.js)\<close>

text \<open>
  A piece object carries \<open>type\<close>, \<open>color\<close>, \<open>symbol\<close> and \<open>hasMoved\<close>. The symbol is
  looked up from the color and the type when the piece is created and never written again, so
  it is a function of the other fields and is left out. Pieces are modelled by value; the
  object copies made by \<open>copyBoard\<close> and by the spread operator are therefore identities.
\<close>

datatype piece_type = King | Queen | Rook | Bishop | Knight | Pawn

datatype color = White | Black

record piece =
  ptype :: piece_type
  pcolor :: color
  hasMoved :: bool

type_synonym board = "piece option list list"

definition createPiece :: "piece_type \<Rightarrow> color \<Rightarrow> piece" where
  "createPiece t c = \<lparr>ptype = t, pcolor = c, hasMoved = False\<rparr>"

definition backRank :: "color \<Rightarrow> piece option list" where
  "backRank c =
    [Some (createPiece Rook c), Some (createPiece Knight c), Some (createPiece Bishop c),
     Some (createPiece Queen c), Some (createPiece King c), Some (createPiece Bishop c),
     Some (createPiece Knight c), Some (createPiece Rook c)]"

definition getInitialBoard :: board where
  "getInitialBoard =
    (let b0 = replicate 8 (replicate 8 None);
         b1 = b0[0 := backRank Black];
         b2 = foldl (\<lambda>b i. b[1 := (b ! 1)[i := Some (createPiece Pawn Black)]]) b1 [0..<8];
         b3 = foldl (\<lambda>b i. b[6 := (b ! 6)[i := Some (createPiece Pawn White)]]) b2 [0..<8];
         b4 = b3[7 := backRank White]
     in b4)"

definition copyPiece :: "piece \<Rightarrow> piece" where
  "copyPiece p = \<lparr>ptype = ptype p, pcolor = pcolor p, hasMoved = hasMoved p\<rparr>"

definition copyBoard :: "board \<Rightarrow> board" where
  "copyBoard b = map (\<lambda>r. map (\<lambda>cell. case cell of None \<Rightarrow> None | Some p \<Rightarrow> Some (copyPiece p)) r) b"

section \<open>Game state (class ChessGame)\<close>

datatype castle_side = Kingside | Queenside

text \<open>
  A move descriptor is an object literal with \<open>row\<close> and \<open>col\<close> and optional flags. The code
  only ever tests the flags for truthiness, so an absent flag is \<open>False\<close> (or \<open>None\<close> for the
  castling side).
\<close>

record move_info =
  mrow :: int
  mcol :: int
  promotion :: bool
  twoStep :: bool
  capture :: bool
  enPassant :: bool
  castling :: "castle_side option"

type_synonym square = "int \<times> int"

record move_record =
  hfrom :: square
  hto :: square
  hpiece :: piece
  captured :: "piece option"
  hcastling :: "castle_side option"
  henPassant :: bool
  hpromotion :: bool
  promotionPiece :: "piece_type option"
  previousEnPassant :: "square option"

datatype outcome = Win color | Draw

record game =
  board :: board
  currentTurn :: color
  selectedPiece :: "square option"
  validMoves :: "move_info list"
  moveHistory :: "move_record list"
  capturedWhite :: "piece list"
  capturedBlack :: "piece list"
  enPassantTarget :: "square option"
  gameOver :: bool
  winner :: "outcome option"
  isCheck :: bool
  lastMove :: "(square \<times> square) option"

definition reset :: game where
  "reset = \<lparr>board = getInitialBoard, currentTurn = White, selectedPiece = None,
     validMoves = [], moveHistory = [], capturedWhite = [], capturedBlack = [],
     enPassantTarget = None, gameOver = False, winner = None, isCheck = False,
     lastMove = None\<rparr>"

definition opponent :: "color \<Rightarrow> color" where
  "opponent c = (if c = White then Black else White)"

definition getPiece :: "game \<Rightarrow> int \<Rightarrow> int \<Rightarrow> piece option" where
  "getPiece g r c =
    (if r < 0 \<or> r > 7 \<or> c < 0 \<or> c > 7 then None else board g ! nat r ! nat c)"

definition setPiece :: "game \<Rightarrow> int \<Rightarrow> int \<Rightarrow> piece option \<Rightarrow> game" where
  "setPiece g r c p =
    (if r \<ge> 0 \<and> r \<le> 7 \<and> c \<ge> 0 \<and> c \<le> 7
     then g\<lparr>board := (board g)[nat r := (board g ! nat r)[nat c := p]]\<rparr>
     else g)"

text \<open>The 64 squares in the order of the nested \<open>for\<close> loops: rows outside, columns inside.\<close>

definition allSquares :: "square list" where
  "allSquares = concat (map (\<lambda>r. map (\<lambda>c. (r, c)) [0..7]) [0..7])"

definition isPieceOf :: "game \<Rightarrow> (piece \<Rightarrow> bool) \<Rightarrow> square \<Rightarrow> bool" where
  "isPieceOf g P s = (case getPiece g (fst s) (snd s) of None \<Rightarrow> False | Some p \<Rightarrow> P p)"

definition findKing :: "game \<Rightarrow> color \<Rightarrow> square option" where
  "findKing g c = find (isPieceOf g (\<lambda>p. ptype p = King \<and> pcolor p = c)) allSquares"

section \<open>Pseudo-legal move generation\<close>

definition plainMove :: "int \<Rightarrow> int \<Rightarrow> move_info" where
  "plainMove r c = \<lparr>mrow = r, mcol = c, promotion = False, twoStep = False, capture = False,
     enPassant = False, castling = None\<rparr>"

definition onBoard :: "int \<Rightarrow> int \<Rightarrow> bool" where
  "onBoard r c = (r \<ge> 0 \<and> r \<le> 7 \<and> c \<ge> 0 \<and> c \<le> 7)"

definition pawnForward :: "game \<Rightarrow> int \<Rightarrow> int \<Rightarrow> piece \<Rightarrow> move_info list" where
  "pawnForward g r c p =
    (let direction = (if pcolor p = White then - 1 else 1);
         startRow = (if pcolor p = White then 6 else 1);
         promotionRow = (if pcolor p = White then 0 else 7);
         oneStep = r + direction
     in if oneStep \<ge> 0 \<and> oneStep \<le> 7 \<and> getPiece g oneStep c = None
        then (plainMove oneStep c)\<lparr>promotion := (oneStep = promotionRow)\<rparr> #
             (if r = startRow
              then (if getPiece g (r + 2 * direction) c = None
                    then [(plainMove (r + 2 * direction) c)\<lparr>twoStep := True\<rparr>] else [])
              else [])
        else [])"

definition pawnDiagonal :: "game \<Rightarrow> int \<Rightarrow> int \<Rightarrow> piece \<Rightarrow> bool \<Rightarrow> int \<Rightarrow> move_info list" where
  "pawnDiagonal g r c p attackOnly dc =
    (let direction = (if pcolor p = White then - 1 else 1);
         promotionRow = (if pcolor p = White then 0 else 7);
         newRow = r + direction;
         newCol = c + dc
     in if newRow \<ge> 0 \<and> newRow \<le> 7 \<and> newCol \<ge> 0 \<and> newCol \<le> 7
        then (if attackOnly then [plainMove newRow newCol]
              else (case getPiece g newRow newCol of
                      None \<Rightarrow> []
                    | Some target \<Rightarrow>
                        if pcolor target \<noteq> pcolor p
                        then [(plainMove newRow newCol)\<lparr>capture := True,
                                 promotion := (newRow = promotionRow)\<rparr>]
                        else []))
             @ (if \<not> attackOnly \<and> enPassantTarget g = Some (newRow, newCol)
                then [(plainMove newRow newCol)\<lparr>enPassant := True, capture := True\<rparr>]
                else [])
        else [])"

definition getPawnMoves :: "game \<Rightarrow> int \<Rightarrow> int \<Rightarrow> piece \<Rightarrow> bool \<Rightarrow> move_info list" where
  "getPawnMoves g r c p attackOnly =
    (if \<not> attackOnly then pawnForward g r c p else [])
    @ pawnDiagonal g r c p attackOnly (- 1) @ pawnDiagonal g r c p attackOnly 1"

text \<open>
  One ray of \<open>getSlidingMoves\<close>: the \<open>while\<close> loop, started at the first square after the
  piece. The direction tables of the source never hold the null direction; the guard
  \<open>dr \<noteq> 0 \<or> dc \<noteq> 0\<close> only makes the recursion total.
\<close>

function slideRay :: "game \<Rightarrow> piece \<Rightarrow> int \<Rightarrow> int \<Rightarrow> int \<Rightarrow> int \<Rightarrow> move_info list" where
  "slideRay g p r c dr dc =
    (if r \<ge> 0 \<and> r \<le> 7 \<and> c \<ge> 0 \<and> c \<le> 7 \<and> (dr \<noteq> 0 \<or> dc \<noteq> 0)
     then (case getPiece g r c of
             None \<Rightarrow> plainMove r c # slideRay g p (r + dr) (c + dc) dr dc
           | Some target \<Rightarrow>
               if pcolor target \<noteq> pcolor p then [(plainMove r c)\<lparr>capture := True\<rparr>] else [])
     else [])"
  by pat_completeness auto
termination
  by (relation "measure (\<lambda>(g, p, r, c, dr, dc).
        nat (if dr > 0 then 8 - r else if dr < 0 then r + 1
             else if dc > 0 then 8 - c else c + 1))") auto

definition getSlidingMoves ::
  "game \<Rightarrow> int \<Rightarrow> int \<Rightarrow> piece \<Rightarrow> (int \<times> int) list \<Rightarrow> move_info list" where
  "getSlidingMoves g r c p directions =
    concat (map (\<lambda>(dr, dc). slideRay g p (r + dr) (c + dc) dr dc) directions)"

definition stepMove :: "game \<Rightarrow> int \<Rightarrow> int \<Rightarrow> piece \<Rightarrow> int \<times> int \<Rightarrow> move_info list" where
  "stepMove g r c p d =
    (let r' = r + fst d; c' = c + snd d
     in if r' \<ge> 0 \<and> r' \<le> 7 \<and> c' \<ge> 0 \<and> c' \<le> 7
        then (case getPiece g r' c' of
                None \<Rightarrow> [(plainMove r' c')\<lparr>capture := False\<rparr>]
              | Some target \<Rightarrow>
                  if pcolor target \<noteq> pcolor p then [(plainMove r' c')\<lparr>capture := True\<rparr>]
                  else [])
        else [])"

definition knightOffsets :: "(int \<times> int) list" where
  "knightOffsets = [(- 2, - 1), (- 2, 1), (- 1, - 2), (- 1, 2), (1, - 2), (1, 2), (2, - 1), (2, 1)]"

definition kingOffsets :: "(int \<times> int) list" where
  "kingOffsets = [(- 1, - 1), (- 1, 0), (- 1, 1), (0, - 1), (0, 1), (1, - 1), (1, 0), (1, 1)]"

definition rookDirections :: "(int \<times> int) list" where
  "rookDirections = [(0, 1), (0, - 1), (1, 0), (- 1, 0)]"

definition bishopDirections :: "(int \<times> int) list" where
  "bishopDirections = [(1, 1), (1, - 1), (- 1, 1), (- 1, - 1)]"

definition getKnightMoves :: "game \<Rightarrow> int \<Rightarrow> int \<Rightarrow> piece \<Rightarrow> move_info list" where
  "getKnightMoves g r c p = concat (map (stepMove g r c p) knightOffsets)"

definition hitsSquare :: "int \<Rightarrow> int \<Rightarrow> move_info \<Rightarrow> bool" where
  "hitsSquare r c m = (mrow m = r \<and> mcol m = c)"

text \<open>
  \<open>getRawMoves\<close>, \<open>getKingMoves\<close>, \<open>getCastlingMoves\<close>, \<open>isInCheck\<close> and
  \<open>isSquareAttacked\<close> call each other in the source. The recursion is bounded by the
  \<open>attackOnly\<close> flag: castling is looked at only when the flag is off, and the attack scan
  always passes the flag on.
\<close>

function getRawMoves :: "game \<Rightarrow> int \<Rightarrow> int \<Rightarrow> piece \<Rightarrow> bool \<Rightarrow> move_info list"
  and getKingMoves :: "game \<Rightarrow> int \<Rightarrow> int \<Rightarrow> piece \<Rightarrow> bool \<Rightarrow> move_info list"
  and getCastlingMoves :: "game \<Rightarrow> int \<Rightarrow> int \<Rightarrow> piece \<Rightarrow> move_info list"
  and isInCheck :: "game \<Rightarrow> color \<Rightarrow> bool"
  and isSquareAttacked :: "game \<Rightarrow> int \<Rightarrow> int \<Rightarrow> color \<Rightarrow> bool"
where
  "getRawMoves g r c p attackOnly =
    (case ptype p of
       Pawn \<Rightarrow> getPawnMoves g r c p attackOnly
     | Rook \<Rightarrow> getSlidingMoves g r c p rookDirections
     | Knight \<Rightarrow> getKnightMoves g r c p
     | Bishop \<Rightarrow> getSlidingMoves g r c p bishopDirections
     | Queen \<Rightarrow> getSlidingMoves g r c p (rookDirections @ bishopDirections)
     | King \<Rightarrow> getKingMoves g r c p attackOnly)"
| "getKingMoves g r c p attackOnly =
    concat (map (stepMove g r c p) kingOffsets)
    @ (if attackOnly then []
       else if hasMoved p then []
       else if isInCheck g (pcolor p) then []
       else getCastlingMoves g r c p)"
| "getCastlingMoves g r c p =
    (let opponentColor = opponent (pcolor p)
     in (case getPiece g r 7 of
           None \<Rightarrow> []
         | Some kingsideRook \<Rightarrow>
             if ptype kingsideRook = Rook \<and> \<not> hasMoved kingsideRook
                \<and> getPiece g r 5 = None \<and> getPiece g r 6 = None
                \<and> \<not> isSquareAttacked g r 5 opponentColor
                \<and> \<not> isSquareAttacked g r 6 opponentColor
             then [(plainMove r 6)\<lparr>castling := Some Kingside\<rparr>] else [])
        @ (case getPiece g r 0 of
           None \<Rightarrow> []
         | Some queensideRook \<Rightarrow>
             if ptype queensideRook = Rook \<and> \<not> hasMoved queensideRook
                \<and> getPiece g r 1 = None \<and> getPiece g r 2 = None \<and> getPiece g r 3 = None
                \<and> \<not> isSquareAttacked g r 2 opponentColor
                \<and> \<not> isSquareAttacked g r 3 opponentColor
             then [(plainMove r 2)\<lparr>castling := Some Queenside\<rparr>] else []))"
| "isInCheck g c =
    (case findKing g c of
       None \<Rightarrow> False
     | Some kingPos \<Rightarrow> isSquareAttacked g (fst kingPos) (snd kingPos) (opponent c))"
| "isSquareAttacked g r c byColor =
    list_ex (\<lambda>s. case getPiece g (fst s) (snd s) of
                   None \<Rightarrow> False
                 | Some p \<Rightarrow> pcolor p = byColor
                     \<and> list_ex (hitsSquare r c) (getRawMoves g (fst s) (snd s) p True))
            allSquares"
  by pat_completeness auto
termination
  by (relation "measure (\<lambda>x. case x of
        Inl (Inl (g, r, c, p, a)) \<Rightarrow> (if a then 1 else 5)
      | Inl (Inr (g, r, c, p, a)) \<Rightarrow> (if a then 0 else 4)
      | Inr (Inl (g, r, c, p)) \<Rightarrow> 3
      | Inr (Inr (Inl (g, c))) \<Rightarrow> 3
      | Inr (Inr (Inr (g, r, c, b))) \<Rightarrow> 2)") auto


section \<open>Legality filter\<close>

definition relocateRook :: "game \<Rightarrow> int \<Rightarrow> int \<Rightarrow> int \<Rightarrow> game" where
  "relocateRook g r fromCol toCol =
    (let rook = getPiece g r fromCol
     in setPiece (setPiece g r fromCol None) r toCol rook)"

text \<open>
  \<open>simulateMove\<close> is called by \<open>getValidMoves\<close> only, for the raw moves of the piece found
  on the from-square. On an empty from-square with the en-passant flag set the source would
  throw, reading the color of \<open>null\<close>; the definition skips the removal there. No call
  reaches that branch.
\<close>

definition simulateMove ::
  "game \<Rightarrow> int \<Rightarrow> int \<Rightarrow> int \<Rightarrow> int \<Rightarrow> move_info option \<Rightarrow> game" where
  "simulateMove g fromRow fromCol toRow toCol moveInfo =
    (let piece = getPiece g fromRow fromCol;
         g1 = (case moveInfo of
                 None \<Rightarrow> g
               | Some mi \<Rightarrow>
                   if enPassant mi
                   then (case piece of
                           None \<Rightarrow> g
                         | Some p \<Rightarrow>
                             setPiece g (if pcolor p = White then toRow + 1 else toRow - 1)
                               toCol None)
                   else g);
         g2 = (case moveInfo of
                 None \<Rightarrow> g1
               | Some mi \<Rightarrow>
                   (case castling mi of
                      None \<Rightarrow> g1
                    | Some Kingside \<Rightarrow> relocateRook g1 fromRow 7 5
                    | Some Queenside \<Rightarrow> relocateRook g1 fromRow 0 3))
     in setPiece (setPiece g2 toRow toCol piece) fromRow fromCol None)"

text \<open>
  The loop of \<open>getValidMoves\<close>: it moves the piece on the live board, asks whether the
  mover's king is attacked, and puts the saved copy of the board and the saved en-passant
  target back. The state is threaded through, as the source mutates \<open>this\<close>.
\<close>

fun getValidMovesLoop ::
  "game \<Rightarrow> int \<Rightarrow> int \<Rightarrow> piece \<Rightarrow> move_info list \<Rightarrow> move_info list \<Rightarrow> move_info list \<times> game"
where
  "getValidMovesLoop g r c p [] valid = (valid, g)"
| "getValidMovesLoop g r c p (move # rest) valid =
    (let originalBoard = copyBoard (board g);
         originalEnPassant = enPassantTarget g;
         g1 = simulateMove g r c (mrow move) (mcol move) (Some move);
         valid' = (if \<not> isInCheck g1 (pcolor p) then valid @ [move] else valid);
         g2 = g1\<lparr>board := originalBoard, enPassantTarget := originalEnPassant\<rparr>
     in getValidMovesLoop g2 r c p rest valid')"

definition getValidMoves :: "game \<Rightarrow> int \<Rightarrow> int \<Rightarrow> move_info list \<times> game" where
  "getValidMoves g r c =
    (case getPiece g r c of
       None \<Rightarrow> ([], g)
     | Some p \<Rightarrow>
         if pcolor p \<noteq> currentTurn g then ([], g)
         else getValidMovesLoop g r c p (getRawMoves g r c p False) [])"

text \<open>The entries of \<open>getAllValidMoves\<close>: \<open>{from, to, piece}\<close>.\<close>

record valid_move =
  vfrom :: square
  vto :: move_info
  vpiece :: piece

fun getAllValidMovesLoop ::
  "game \<Rightarrow> color \<Rightarrow> square list \<Rightarrow> valid_move list \<Rightarrow> valid_move list \<times> game" where
  "getAllValidMovesLoop g color [] allMoves = (allMoves, g)"
| "getAllValidMovesLoop g color (s # rest) allMoves =
    (case getPiece g (fst s) (snd s) of
       None \<Rightarrow> getAllValidMovesLoop g color rest allMoves
     | Some p \<Rightarrow>
         if pcolor p = color
         then (let res = getValidMoves g (fst s) (snd s)
               in getAllValidMovesLoop (snd res) color rest
                    (allMoves @ map (\<lambda>m. \<lparr>vfrom = s, vto = m, vpiece = p\<rparr>) (fst res)))
         else getAllValidMovesLoop g color rest allMoves)"

definition getAllValidMoves :: "game \<Rightarrow> color \<Rightarrow> valid_move list \<times> game" where
  "getAllValidMoves g color = getAllValidMovesLoop g color allSquares []"

section \<open>Terminal detection\<close>

text \<open>The labelled loop of \<open>checkGameState\<close>, left at the first piece that has a valid move.\<close>

fun hasValidMovesLoop :: "game \<Rightarrow> square list \<Rightarrow> bool \<times> game" where
  "hasValidMovesLoop g [] = (False, g)"
| "hasValidMovesLoop g (s # rest) =
    (case getPiece g (fst s) (snd s) of
       None \<Rightarrow> hasValidMovesLoop g rest
     | Some p \<Rightarrow>
         if pcolor p = currentTurn g
         then (let res = getValidMoves g (fst s) (snd s)
               in if length (fst res) > 0 then (True, snd res)
                  else hasValidMovesLoop (snd res) rest)
         else hasValidMovesLoop g rest)"

definition checkGameState :: "game \<Rightarrow> game" where
  "checkGameState g =
    (let g1 = g\<lparr>isCheck := isInCheck g (currentTurn g)\<rparr>;
         res = hasValidMovesLoop g1 allSquares;
         g2 = snd res
     in if \<not> fst res
        then g2\<lparr>gameOver := True,
                winner := Some (if isCheck g2 then Win (opponent (currentTurn g2)) else Draw)\<rparr>
        else g2)"

section \<open>Move execution and history\<close>

datatype error = TypeError

definition pushCaptured :: "game \<Rightarrow> color \<Rightarrow> piece \<Rightarrow> game" where
  "pushCaptured g c p =
    (if c = White then g\<lparr>capturedWhite := capturedWhite g @ [p]\<rparr>
     else g\<lparr>capturedBlack := capturedBlack g @ [p]\<rparr>)"

definition popCaptured :: "game \<Rightarrow> color \<Rightarrow> game" where
  "popCaptured g c =
    (if c = White then g\<lparr>capturedWhite := butlast (capturedWhite g)\<rparr>
     else g\<lparr>capturedBlack := butlast (capturedBlack g)\<rparr>)"

text \<open>
  The castling block of \<open>makeMove\<close> (\<open>flag = True\<close>) and of \<open>undoMove\<close> (\<open>flag = False\<close>):
  the rook found on \<open>fromCol\<close> gets its \<open>hasMoved\<close> written and is put on \<open>toCol\<close>. Writing
  \<open>hasMoved\<close> of \<open>null\<close> throws a TypeError before anything is moved.
\<close>

definition castleRook :: "game \<Rightarrow> int \<Rightarrow> int \<Rightarrow> int \<Rightarrow> bool \<Rightarrow> error + game" where
  "castleRook g r fromCol toCol flag =
    (case getPiece g r fromCol of
       None \<Rightarrow> Inl TypeError
     | Some rook \<Rightarrow>
         Inr (setPiece (setPiece g r fromCol None) r toCol (Some (rook\<lparr>hasMoved := flag\<rparr>))))"

text \<open>
  \<open>makeMove\<close> is written as the source's blocks, one definition each: the captured piece
  (the en-passant victim stands one row behind the destination), its removal and its entry
  in the captured list, the castling rook, the history entry, the relocation of the piece
  with the promotion, and the bookkeeping that ends in \<open>checkGameState\<close>.

  Pieces are values here. The source pushes the captured object itself on the captured list
  and afterwards writes \<open>hasMoved\<close> of the moving piece and of the castling rook. If a
  stored list entry sent a piece onto its own square, or made the castling rook the captured
  piece, that write would show in the captured list of the source and does not in the
  definition. No list that \<open>getValidMoves\<close> returns has such an entry: a move never ends
  on its origin, and a castling move captures nothing.
\<close>

definition capturedRowFor :: "piece \<Rightarrow> int \<Rightarrow> int" where
  "capturedRowFor piece toRow = (if pcolor piece = White then toRow + 1 else toRow - 1)"

definition capturedBy :: "game \<Rightarrow> piece \<Rightarrow> move_info \<Rightarrow> int \<Rightarrow> int \<Rightarrow> piece option" where
  "capturedBy g piece moveInfo toRow toCol =
    (if enPassant moveInfo then getPiece g (capturedRowFor piece toRow) toCol
     else getPiece g toRow toCol)"

definition afterCapture :: "game \<Rightarrow> piece \<Rightarrow> move_info \<Rightarrow> int \<Rightarrow> int \<Rightarrow> game" where
  "afterCapture g piece moveInfo toRow toCol =
    (let g1 = (if enPassant moveInfo
               then setPiece g (capturedRowFor piece toRow) toCol None else g)
     in case capturedBy g piece moveInfo toRow toCol of
          None \<Rightarrow> g1
        | Some cp \<Rightarrow> pushCaptured g1 (pcolor piece) cp)"

definition afterCastling :: "game \<Rightarrow> move_info \<Rightarrow> int \<Rightarrow> error + game" where
  "afterCastling g moveInfo fromRow =
    (case castling moveInfo of
       None \<Rightarrow> Inr g
     | Some Kingside \<Rightarrow> castleRook g fromRow 7 5 True
     | Some Queenside \<Rightarrow> castleRook g fromRow 0 3 True)"

definition historyEntry ::
  "game \<Rightarrow> piece \<Rightarrow> move_info \<Rightarrow> int \<Rightarrow> int \<Rightarrow> int \<Rightarrow> int \<Rightarrow> piece_type option \<Rightarrow> move_record"
where
  "historyEntry g piece moveInfo fromRow fromCol toRow toCol promo =
    \<lparr>hfrom = (fromRow, fromCol), hto = (toRow, toCol), hpiece = copyPiece piece,
     captured = map_option copyPiece (capturedBy g piece moveInfo toRow toCol),
     hcastling = castling moveInfo, henPassant = enPassant moveInfo,
     hpromotion = promotion moveInfo, promotionPiece = promo,
     previousEnPassant = enPassantTarget g\<rparr>"

definition movePiece ::
  "game \<Rightarrow> piece \<Rightarrow> move_info \<Rightarrow> int \<Rightarrow> int \<Rightarrow> int \<Rightarrow> int \<Rightarrow> piece_type option \<Rightarrow> game" where
  "movePiece g piece moveInfo fromRow fromCol toRow toCol promo =
    (let moved = piece\<lparr>hasMoved := True\<rparr>;
         g1 = setPiece (setPiece g toRow toCol (Some moved)) fromRow fromCol None
     in case promo of
          None \<Rightarrow> g1
        | Some t \<Rightarrow>
            if promotion moveInfo
            then setPiece g1 toRow toCol (Some ((createPiece t (pcolor piece))\<lparr>hasMoved := True\<rparr>))
            else g1)"

definition beforeCheck ::
  "game \<Rightarrow> piece \<Rightarrow> move_info \<Rightarrow> move_record \<Rightarrow> int \<Rightarrow> int \<Rightarrow> int \<Rightarrow> int \<Rightarrow> piece_type option \<Rightarrow> game"
where
  "beforeCheck g piece moveInfo move fromRow fromCol toRow toCol promo =
    (let g2 = movePiece g piece moveInfo fromRow fromCol toRow toCol promo;
         g3 = g2\<lparr>enPassantTarget :=
                  (if twoStep moveInfo then Some (capturedRowFor piece toRow, toCol) else None)\<rparr>;
         g4 = g3\<lparr>lastMove := Some ((fromRow, fromCol), (toRow, toCol))\<rparr>;
         g5 = g4\<lparr>moveHistory := moveHistory g4 @ [move]\<rparr>
     in g5\<lparr>currentTurn := opponent (currentTurn g5)\<rparr>)"

definition makeMove ::
  "game \<Rightarrow> int \<Rightarrow> int \<Rightarrow> int \<Rightarrow> int \<Rightarrow> piece_type option \<Rightarrow> (error + bool) \<times> game" where
  "makeMove g fromRow fromCol toRow toCol promo =
    (case getPiece g fromRow fromCol of
       None \<Rightarrow> (Inr False, g)
     | Some piece \<Rightarrow>
         (case find (hitsSquare toRow toCol) (validMoves g) of
            None \<Rightarrow> (Inr False, g)
          | Some moveInfo \<Rightarrow>
              (let move = historyEntry g piece moveInfo fromRow fromCol toRow toCol promo;
                   g2 = afterCapture g piece moveInfo toRow toCol
               in case afterCastling g2 moveInfo fromRow of
                    Inl e \<Rightarrow> (Inl e, g2)
                  | Inr g3 \<Rightarrow>
                      (Inr True,
                       checkGameState
                         (beforeCheck g3 piece moveInfo move fromRow fromCol toRow toCol promo)))))"

text \<open>\<open>undoMove\<close>, block by block in the same way.\<close>

definition restoredPiece :: "move_record \<Rightarrow> piece" where
  "restoredPiece move =
    (if hpromotion move \<and> promotionPiece move \<noteq> None
     then createPiece Pawn (pcolor (hpiece move))
     else copyPiece (hpiece move))\<lparr>hasMoved := hasMoved (hpiece move)\<rparr>"

definition restorePieces :: "game \<Rightarrow> move_record \<Rightarrow> game" where
  "restorePieces g move =
    (let piece = restoredPiece move;
         g1 = setPiece g (fst (hfrom move)) (snd (hfrom move)) (Some piece);
         g2 = setPiece g1 (fst (hto move)) (snd (hto move)) None
     in case captured move of
          None \<Rightarrow> g2
        | Some cp \<Rightarrow>
            popCaptured
              (if henPassant move
               then setPiece g2 (capturedRowFor piece (fst (hto move))) (snd (hto move)) (Some cp)
               else setPiece g2 (fst (hto move)) (snd (hto move)) (Some cp))
              (pcolor piece))"

definition restoreCastling :: "game \<Rightarrow> move_record \<Rightarrow> error + game" where
  "restoreCastling g move =
    (case hcastling move of
       None \<Rightarrow> Inr g
     | Some Kingside \<Rightarrow> castleRook g (fst (hfrom move)) 5 7 False
     | Some Queenside \<Rightarrow> castleRook g (fst (hfrom move)) 3 0 False)"

definition restoreStatus :: "game \<Rightarrow> move_record \<Rightarrow> game" where
  "restoreStatus g move =
    (let g1 = g\<lparr>enPassantTarget := previousEnPassant move\<rparr>;
         g2 = g1\<lparr>currentTurn := opponent (currentTurn g1)\<rparr>;
         g3 = g2\<lparr>gameOver := False, winner := None\<rparr>;
         g4 = g3\<lparr>isCheck := isInCheck g3 (currentTurn g3)\<rparr>
     in g4\<lparr>lastMove :=
             (if length (moveHistory g4) > 0
              then Some (hfrom (last (moveHistory g4)), hto (last (moveHistory g4)))
              else None)\<rparr>)"

definition undoMove :: "game \<Rightarrow> (error + bool) \<times> game" where
  "undoMove g =
    (if length (moveHistory g) = 0 then (Inr False, g)
     else
       (let move = last (moveHistory g);
            g0 = g\<lparr>moveHistory := butlast (moveHistory g)\<rparr>;
            g1 = restorePieces g0 move
        in case restoreCastling g1 move of
             Inl e \<Rightarrow> (Inl e, g1)
           | Inr g2 \<Rightarrow> (Inr True, restoreStatus g2 move)))"

text \<open>
  \<open>ChessUI.selectPiece\<close> is where the stored list \<open>validMoves\<close> comes from: the interface
  writes the result of \<open>getValidMoves\<close> into the game before it calls \<open>makeMove\<close>.
\<close>

definition selectPiece :: "game \<Rightarrow> int \<Rightarrow> int \<Rightarrow> game" where
  "selectPiece g r c =
    (let res = getValidMoves g r c in (snd res)\<lparr>validMoves := fst res\<rparr>)"



section \<open>Search agent (class ChessAI)\<close>

text \<open>
  The agent holds three fields, all written by \<open>setDifficulty\<close> and by nothing else; the
  constructor only calls \<open>setDifficulty\<close>.
\<close>

record chess_ai =
  difficulty :: string
  maxDepth :: int
  randomFactor :: real

definition setDifficulty :: "string \<Rightarrow> chess_ai" where
  "setDifficulty d =
    (if d = ''easy'' then \<lparr>difficulty = d, maxDepth = 2, randomFactor = 3 / 10\<rparr>
     else if d = ''medium'' then \<lparr>difficulty = d, maxDepth = 3, randomFactor = 1 / 10\<rparr>
     else if d = ''hard'' then \<lparr>difficulty = d, maxDepth = 4, randomFactor = 0\<rparr>
     else \<lparr>difficulty = d, maxDepth = 3, randomFactor = 1 / 10\<rparr>)"

subsection \<open>Evaluation tables (js/chess-pieces.js)\<close>

fun PIECE_VALUES :: "piece_type \<Rightarrow> int" where
  "PIECE_VALUES King = 10000"
| "PIECE_VALUES Queen = 900"
| "PIECE_VALUES Rook = 500"
| "PIECE_VALUES Bishop = 330"
| "PIECE_VALUES Knight = 320"
| "PIECE_VALUES Pawn = 100"

fun POSITION_BONUS :: "piece_type \<Rightarrow> color \<Rightarrow> int list list" where
  "POSITION_BONUS Pawn White =
     [[0, 0, 0, 0, 0, 0, 0, 0],
      [50, 50, 50, 50, 50, 50, 50, 50],
      [10, 10, 20, 30, 30, 20, 10, 10],
      [5, 5, 10, 25, 25, 10, 5, 5],
      [0, 0, 0, 20, 20, 0, 0, 0],
      [5, - 5, - 10, 0, 0, - 10, - 5, 5],
      [5, 10, 10, - 20, - 20, 10, 10, 5],
      [0, 0, 0, 0, 0, 0, 0, 0]]"
| "POSITION_BONUS Pawn Black =
     [[0, 0, 0, 0, 0, 0, 0, 0],
      [5, 10, 10, - 20, - 20, 10, 10, 5],
      [5, - 5, - 10, 0, 0, - 10, - 5, 5],
      [0, 0, 0, 20, 20, 0, 0, 0],
      [5, 5, 10, 25, 25, 10, 5, 5],
      [10, 10, 20, 30, 30, 20, 10, 10],
      [50, 50, 50, 50, 50, 50, 50, 50],
      [0, 0, 0, 0, 0, 0, 0, 0]]"
| "POSITION_BONUS Knight White =
     [[- 50, - 40, - 30, - 30, - 30, - 30, - 40, - 50],
      [- 40, - 20, 0, 0, 0, 0, - 20, - 40],
      [- 30, 0, 10, 15, 15, 10, 0, - 30],
      [- 30, 5, 15, 20, 20, 15, 5, - 30],
      [- 30, 0, 15, 20, 20, 15, 0, - 30],
      [- 30, 5, 10, 15, 15, 10, 5, - 30],
      [- 40, - 20, 0, 5, 5, 0, - 20, - 40],
      [- 50, - 40, - 30, - 30, - 30, - 30, - 40, - 50]]"
| "POSITION_BONUS Knight Black =
     [[- 50, - 40, - 30, - 30, - 30, - 30, - 40, - 50],
      [- 40, - 20, 0, 5, 5, 0, - 20, - 40],
      [- 30, 5, 10, 15, 15, 10, 5, - 30],
      [- 30, 0, 15, 20, 20, 15, 0, - 30],
      [- 30, 5, 15, 20, 20, 15, 5, - 30],
      [- 30, 0, 10, 15, 15, 10, 0, - 30],
      [- 40, - 20, 0, 0, 0, 0, - 20, - 40],
      [- 50, - 40, - 30, - 30, - 30, - 30, - 40, - 50]]"
| "POSITION_BONUS Bishop White =
     [[- 20, - 10, - 10, - 10, - 10, - 10, - 10, - 20],
      [- 10, 0, 0, 0, 0, 0, 0, - 10],
      [- 10, 0, 5, 10, 10, 5, 0, - 10],
      [- 10, 5, 5, 10, 10, 5, 5, - 10],
      [- 10, 0, 10, 10, 10, 10, 0, - 10],
      [- 10, 10, 10, 10, 10, 10, 10, - 10],
      [- 10, 5, 0, 0, 0, 0, 5, - 10],
      [- 20, - 10, - 10, - 10, - 10, - 10, - 10, - 20]]"
| "POSITION_BONUS Bishop Black =
     [[- 20, - 10, - 10, - 10, - 10, - 10, - 10, - 20],
      [- 10, 5, 0, 0, 0, 0, 5, - 10],
      [- 10, 10, 10, 10, 10, 10, 10, - 10],
      [- 10, 0, 10, 10, 10, 10, 0, - 10],
      [- 10, 5, 5, 10, 10, 5, 5, - 10],
      [- 10, 0, 5, 10, 10, 5, 0, - 10],
      [- 10, 0, 0, 0, 0, 0, 0, - 10],
      [- 20, - 10, - 10, - 10, - 10, - 10, - 10, - 20]]"
| "POSITION_BONUS Rook White =
     [[0, 0, 0, 0, 0, 0, 0, 0],
      [5, 10, 10, 10, 10, 10, 10, 5],
      [- 5, 0, 0, 0, 0, 0, 0, - 5],
      [- 5, 0, 0, 0, 0, 0, 0, - 5],
      [- 5, 0, 0, 0, 0, 0, 0, - 5],
      [- 5, 0, 0, 0, 0, 0, 0, - 5],
      [- 5, 0, 0, 0, 0, 0, 0, - 5],
      [0, 0, 0, 5, 5, 0, 0, 0]]"
| "POSITION_BONUS Rook Black =
     [[0, 0, 0, 5, 5, 0, 0, 0],
      [- 5, 0, 0, 0, 0, 0, 0, - 5],
      [- 5, 0, 0, 0, 0, 0, 0, - 5],
      [- 5, 0, 0, 0, 0, 0, 0, - 5],
      [- 5, 0, 0, 0, 0, 0, 0, - 5],
      [- 5, 0, 0, 0, 0, 0, 0, - 5],
      [5, 10, 10, 10, 10, 10, 10, 5],
      [0, 0, 0, 0, 0, 0, 0, 0]]"
| "POSITION_BONUS Queen White =
     [[- 20, - 10, - 10, - 5, - 5, - 10, - 10, - 20],
      [- 10, 0, 0, 0, 0, 0, 0, - 10],
      [- 10, 0, 5, 5, 5, 5, 0, - 10],
      [- 5, 0, 5, 5, 5, 5, 0, - 5],
      [0, 0, 5, 5, 5, 5, 0, - 5],
      [- 10, 5, 5, 5, 5, 5, 0, - 10],
      [- 10, 0, 5, 0, 0, 0, 0, - 10],
      [- 20, - 10, - 10, - 5, - 5, - 10, - 10, - 20]]"
| "POSITION_BONUS Queen Black =
     [[- 20, - 10, - 10, - 5, - 5, - 10, - 10, - 20],
      [- 10, 0, 5, 0, 0, 0, 0, - 10],
      [- 10, 5, 5, 5, 5, 5, 0, - 10],
      [0, 0, 5, 5, 5, 5, 0, - 5],
      [- 5, 0, 5, 5, 5, 5, 0, - 5],
      [- 10, 0, 5, 5, 5, 5, 0, - 10],
      [- 10, 0, 0, 0, 0, 0, 0, - 10],
      [- 20, - 10, - 10, - 5, - 5, - 10, - 10, - 20]]"
| "POSITION_BONUS King White =
     [[- 30, - 40, - 40, - 50, - 50, - 40, - 40, - 30],
      [- 30, - 40, - 40, - 50, - 50, - 40, - 40, - 30],
      [- 30, - 40, - 40, - 50, - 50, - 40, - 40, - 30],
      [- 30, - 40, - 40, - 50, - 50, - 40, - 40, - 30],
      [- 20, - 30, - 30, - 40, - 40, - 30, - 30, - 20],
      [- 10, - 20, - 20, - 20, - 20, - 20, - 20, - 10],
      [20, 20, 0, 0, 0, 0, 20, 20],
      [20, 30, 10, 0, 0, 10, 30, 20]]"
| "POSITION_BONUS King Black =
     [[20, 30, 10, 0, 0, 10, 30, 20],
      [20, 20, 0, 0, 0, 0, 20, 20],
      [- 10, - 20, - 20, - 20, - 20, - 20, - 20, - 10],
      [- 20, - 30, - 30, - 40, - 40, - 30, - 30, - 20],
      [- 30, - 40, - 40, - 50, - 50, - 40, - 40, - 30],
      [- 30, - 40, - 40, - 50, - 50, - 40, - 40, - 30],
      [- 30, - 40, - 40, - 50, - 50, - 40, - 40, - 30],
      [- 30, - 40, - 40, - 50, - 50, - 40, - 40, - 30]]"

subsection \<open>Attack scan of the agent\<close>

text \<open>
  The agent does not call the engine's \<open>isSquareAttacked\<close>; it scans from the square
  outwards. \<open>pieceAt\<close> is the test of the pawn, knight and king loops, \<open>scanRay\<close> the
  \<open>while\<close> loop of the sliding pieces. As in \<open>slideRay\<close>, the guard on the null direction
  only makes the recursion total.
\<close>

definition pieceAt :: "game \<Rightarrow> piece_type \<Rightarrow> color \<Rightarrow> int \<Rightarrow> int \<Rightarrow> bool" where
  "pieceAt g t byColor r c =
    (r \<ge> 0 \<and> r \<le> 7 \<and> c \<ge> 0 \<and> c \<le> 7
     \<and> (case getPiece g r c of
          None \<Rightarrow> False
        | Some p \<Rightarrow> ptype p = t \<and> pcolor p = byColor))"

function scanRay ::
  "game \<Rightarrow> color \<Rightarrow> piece_type list \<Rightarrow> int \<Rightarrow> int \<Rightarrow> int \<Rightarrow> int \<Rightarrow> bool" where
  "scanRay g byColor types r c dr dc =
    (if r \<ge> 0 \<and> r \<le> 7 \<and> c \<ge> 0 \<and> c \<le> 7 \<and> (dr \<noteq> 0 \<or> dc \<noteq> 0)
     then (case getPiece g r c of
             None \<Rightarrow> scanRay g byColor types (r + dr) (c + dc) dr dc
           | Some p \<Rightarrow> pcolor p = byColor \<and> List.member types (ptype p))
     else False)"
  by pat_completeness auto
termination
  by (relation "measure (\<lambda>(g, b, ts, r, c, dr, dc).
        nat (if dr > 0 then 8 - r else if dr < 0 then r + 1
             else if dc > 0 then 8 - c else c + 1))") auto

definition isSquareAttackedForMinimax :: "game \<Rightarrow> int \<Rightarrow> int \<Rightarrow> color \<Rightarrow> bool" where
  "isSquareAttackedForMinimax g row col byColor =
    (let pawnDir = (if byColor = White then 1 else - 1)
     in list_ex (\<lambda>dc. pieceAt g Pawn byColor (row + pawnDir) (col + dc)) [- 1, 1]
        \<or> list_ex (\<lambda>(dr, dc). pieceAt g Knight byColor (row + dr) (col + dc)) knightOffsets
        \<or> list_ex (\<lambda>(dr, dc). pieceAt g King byColor (row + dr) (col + dc)) kingOffsets
        \<or> list_ex (\<lambda>(dr, dc). scanRay g byColor [Rook, Queen] (row + dr) (col + dc) dr dc)
             rookDirections
        \<or> list_ex (\<lambda>(dr, dc). scanRay g byColor [Bishop, Queen] (row + dr) (col + dc) dr dc)
             bishopDirections)"

definition isKingInCheck :: "game \<Rightarrow> color \<Rightarrow> bool" where
  "isKingInCheck g c =
    (case findKing g c of
       None \<Rightarrow> False
     | Some kingPos \<Rightarrow> isSquareAttackedForMinimax g (fst kingPos) (snd kingPos) (opponent c))"

subsection \<open>Move generation of the agent\<close>

text \<open>
  The pawn, knight and sliding generators of the agent repeat the engine's loops without the
  \<open>attackOnly\<close> parameter, so the loop bodies \<open>pawnForward\<close>, \<open>pawnDiagonal\<close> (with the flag
  off), \<open>stepMove\<close> and \<open>slideRay\<close> are used again. The king generator differs: it asks the
  agent's own attack scan.
\<close>

definition getPawnMovesForMinimax :: "game \<Rightarrow> int \<Rightarrow> int \<Rightarrow> piece \<Rightarrow> move_info list" where
  "getPawnMovesForMinimax g r c p =
    pawnForward g r c p @ pawnDiagonal g r c p False (- 1) @ pawnDiagonal g r c p False 1"

definition getSlidingMovesForMinimax ::
  "game \<Rightarrow> int \<Rightarrow> int \<Rightarrow> piece \<Rightarrow> (int \<times> int) list \<Rightarrow> move_info list" where
  "getSlidingMovesForMinimax g r c p directions =
    concat (map (\<lambda>(dr, dc). slideRay g p (r + dr) (c + dc) dr dc) directions)"

definition getKnightMovesForMinimax :: "game \<Rightarrow> int \<Rightarrow> int \<Rightarrow> piece \<Rightarrow> move_info list" where
  "getKnightMovesForMinimax g r c p = concat (map (stepMove g r c p) knightOffsets)"

definition getKingMovesForMinimax :: "game \<Rightarrow> int \<Rightarrow> int \<Rightarrow> piece \<Rightarrow> move_info list" where
  "getKingMovesForMinimax g r c p =
    concat (map (stepMove g r c p) kingOffsets)
    @ (if \<not> hasMoved p \<and> \<not> isKingInCheck g (pcolor p)
       then (let opponentColor = opponent (pcolor p)
             in (case getPiece g r 7 of
                   None \<Rightarrow> []
                 | Some kingsideRook \<Rightarrow>
                     if ptype kingsideRook = Rook \<and> \<not> hasMoved kingsideRook
                        \<and> getPiece g r 5 = None \<and> getPiece g r 6 = None
                        \<and> \<not> isSquareAttackedForMinimax g r 5 opponentColor
                        \<and> \<not> isSquareAttackedForMinimax g r 6 opponentColor
                     then [(plainMove r 6)\<lparr>castling := Some Kingside\<rparr>] else [])
                @ (case getPiece g r 0 of
                   None \<Rightarrow> []
                 | Some queensideRook \<Rightarrow>
                     if ptype queensideRook = Rook \<and> \<not> hasMoved queensideRook
                        \<and> getPiece g r 1 = None \<and> getPiece g r 2 = None
                        \<and> getPiece g r 3 = None
                        \<and> \<not> isSquareAttackedForMinimax g r 2 opponentColor
                        \<and> \<not> isSquareAttackedForMinimax g r 3 opponentColor
                     then [(plainMove r 2)\<lparr>castling := Some Queenside\<rparr>] else []))
       else [])"

definition getRawMovesForMinimax :: "game \<Rightarrow> int \<Rightarrow> int \<Rightarrow> piece \<Rightarrow> move_info list" where
  "getRawMovesForMinimax g r c p =
    (case ptype p of
       Pawn \<Rightarrow> getPawnMovesForMinimax g r c p
     | Rook \<Rightarrow> getSlidingMovesForMinimax g r c p rookDirections
     | Knight \<Rightarrow> getKnightMovesForMinimax g r c p
     | Bishop \<Rightarrow> getSlidingMovesForMinimax g r c p bishopDirections
     | Queen \<Rightarrow> getSlidingMovesForMinimax g r c p (rookDirections @ bishopDirections)
     | King \<Rightarrow> getKingMovesForMinimax g r c p)"

text \<open>
  The loop of \<open>getValidMovesForMinimax\<close>: the board is replaced by a copy, the move is
  played on it (\<open>playForMinimax\<close>: en-passant victim, castling rook, the piece itself), and
  the copy saved before is put back.
\<close>

definition playForMinimax :: "game \<Rightarrow> int \<Rightarrow> int \<Rightarrow> piece \<Rightarrow> move_info \<Rightarrow> game" where
  "playForMinimax g row col piece move =
    (let g1 = (if enPassant move
               then setPiece g (if pcolor piece = White then mrow move + 1 else mrow move - 1)
                      (mcol move) None
               else g);
         g2 = (case castling move of
                 None \<Rightarrow> g1
               | Some Kingside \<Rightarrow> relocateRook g1 row 7 5
               | Some Queenside \<Rightarrow> relocateRook g1 row 0 3)
     in setPiece (setPiece g2 (mrow move) (mcol move) (Some piece)) row col None)"

fun getValidMovesForMinimaxLoop ::
  "game \<Rightarrow> int \<Rightarrow> int \<Rightarrow> piece \<Rightarrow> move_info list \<Rightarrow> move_info list \<Rightarrow> move_info list \<times> game"
where
  "getValidMovesForMinimaxLoop g row col piece [] valid = (valid, g)"
| "getValidMovesForMinimaxLoop g row col piece (move # rest) valid =
    (let originalBoard = copyBoard (board g);
         g1 = playForMinimax (g\<lparr>board := copyBoard (board g)\<rparr>) row col piece move;
         valid' = (if \<not> isKingInCheck g1 (pcolor piece) then valid @ [move] else valid);
         g2 = g1\<lparr>board := originalBoard\<rparr>
     in getValidMovesForMinimaxLoop g2 row col piece rest valid')"

definition getValidMovesForMinimax ::
  "game \<Rightarrow> int \<Rightarrow> int \<Rightarrow> piece \<Rightarrow> move_info list \<times> game" where
  "getValidMovesForMinimax g row col piece =
    getValidMovesForMinimaxLoop g row col piece (getRawMovesForMinimax g row col piece) []"

fun getAllValidMovesForMinimaxLoop ::
  "game \<Rightarrow> color \<Rightarrow> square list \<Rightarrow> valid_move list \<Rightarrow> valid_move list \<times> game" where
  "getAllValidMovesForMinimaxLoop g color [] moves = (moves, g)"
| "getAllValidMovesForMinimaxLoop g color (s # rest) moves =
    (case getPiece g (fst s) (snd s) of
       None \<Rightarrow> getAllValidMovesForMinimaxLoop g color rest moves
     | Some piece \<Rightarrow>
         if pcolor piece = color
         then (let res = getValidMovesForMinimax g (fst s) (snd s) piece
               in getAllValidMovesForMinimaxLoop (snd res) color rest
                    (moves @ map (\<lambda>m. \<lparr>vfrom = s, vto = m, vpiece = piece\<rparr>) (fst res)))
         else getAllValidMovesForMinimaxLoop g color rest moves)"

definition getAllValidMovesForMinimax :: "game \<Rightarrow> color \<Rightarrow> valid_move list \<times> game" where
  "getAllValidMovesForMinimax g color = getAllValidMovesForMinimaxLoop g color allSquares []"

subsection \<open>Simulated moves and evaluation\<close>

definition makeSimulatedMove :: "game \<Rightarrow> valid_move \<Rightarrow> game" where
  "makeSimulatedMove g move =
    (case getPiece g (fst (vfrom move)) (snd (vfrom move)) of
       None \<Rightarrow> g
     | Some piece \<Rightarrow>
         (let to = vto move;
              fromRow = fst (vfrom move);
              fromCol = snd (vfrom move);
              g1 = (if enPassant to
                    then setPiece g (if pcolor piece = White then mrow to + 1 else mrow to - 1)
                           (mcol to) None
                    else g);
              g2 = (case castling to of
                      None \<Rightarrow> g1
                    | Some Kingside \<Rightarrow> relocateRook g1 fromRow 7 5
                    | Some Queenside \<Rightarrow> relocateRook g1 fromRow 0 3);
              g3 = setPiece (setPiece g2 (mrow to) (mcol to) (Some piece)) fromRow fromCol None;
              g4 = (if promotion to
                    then setPiece g3 (mrow to) (mcol to) (Some (createPiece Queen (pcolor piece)))
                    else g3)
          in g4\<lparr>enPassantTarget :=
                  (if twoStep to
                   then Some (if pcolor piece = White then mrow to + 1 else mrow to - 1, mcol to)
                   else None)\<rparr>))"

text \<open>
  \<open>evaluateBoard\<close>: material and piece-square bonus over the 64 squares, ten points for each
  of the four centre squares, fifty for a check. The table lookup is made on squares of the
  board only, where the optional chaining and the \<open>|| 0\<close> of the source change nothing.
\<close>

definition positionBonus :: "piece \<Rightarrow> int \<Rightarrow> int \<Rightarrow> int" where
  "positionBonus piece row col = POSITION_BONUS (ptype piece) (pcolor piece) ! nat row ! nat col"

definition centerSquares :: "square list" where
  "centerSquares = [(3, 3), (3, 4), (4, 3), (4, 4)]"

definition evaluateBoard :: "game \<Rightarrow> color \<Rightarrow> int" where
  "evaluateBoard g aiColor =
    (let score1 = foldl (\<lambda>score s.
                     case getPiece g (fst s) (snd s) of
                       None \<Rightarrow> score
                     | Some piece \<Rightarrow>
                         (let pieceValue = PIECE_VALUES (ptype piece)
                                             + positionBonus piece (fst s) (snd s)
                          in if pcolor piece = aiColor then score + pieceValue
                             else score - pieceValue))
                   0 allSquares;
         score2 = foldl (\<lambda>score s.
                     case getPiece g (fst s) (snd s) of
                       None \<Rightarrow> score
                     | Some piece \<Rightarrow> if pcolor piece = aiColor then score + 10 else score - 10)
                   score1 centerSquares;
         score3 = (if isKingInCheck g (opponent aiColor) then score2 + 50 else score2)
     in if isKingInCheck g aiColor then score3 - 50 else score3)"

text \<open>
  \<open>sortMoves\<close> sorts by descending key with a stable sort. The keys are kept exact (the
  source computes them in floating point; the keys it can produce differ by a tenth at
  least, so the order is the same).
\<close>

definition centerDist :: "int \<Rightarrow> int \<Rightarrow> real" where
  "centerDist row col = \<bar>real_of_int row - 7 / 2\<bar> + \<bar>real_of_int col - 7 / 2\<bar>"

definition moveScore :: "game \<Rightarrow> valid_move \<Rightarrow> real" where
  "moveScore g a =
    (if capture (vto a)
     then 10 + (case getPiece g (mrow (vto a)) (mcol (vto a)) of
                  None \<Rightarrow> 0
                | Some capturedPiece \<Rightarrow> real_of_int (PIECE_VALUES (ptype capturedPiece)) / 100)
     else 0)
    - centerDist (mrow (vto a)) (mcol (vto a))"

definition sortMoves :: "valid_move list \<Rightarrow> game \<Rightarrow> valid_move list" where
  "sortMoves moves g = sort_key (\<lambda>m. - moveScore g m) moves"

subsection \<open>Minimax with alpha-beta pruning\<close>

text \<open>
  Scores are JavaScript numbers: integers and the two infinities that \<open>alpha\<close>, \<open>beta\<close> and
  the running best start from.
\<close>

datatype score = MinusInfinity | Number int | PlusInfinity

fun scoreLe :: "score \<Rightarrow> score \<Rightarrow> bool" where
  "scoreLe MinusInfinity b = True"
| "scoreLe (Number x) MinusInfinity = False"
| "scoreLe (Number x) (Number y) = (x \<le> y)"
| "scoreLe (Number x) PlusInfinity = True"
| "scoreLe PlusInfinity b = (b = PlusInfinity)"

definition scoreMax :: "score \<Rightarrow> score \<Rightarrow> score" where
  "scoreMax a b = (if scoreLe a b then b else a)"

definition scoreMin :: "score \<Rightarrow> score \<Rightarrow> score" where
  "scoreMin a b = (if scoreLe a b then a else b)"

text \<open>
  \<open>minimax\<close> with its two loops. The depth is counted down from \<open>maxDepth - 1\<close> to zero and
  is a natural number; the loops \<open>maximize\<close> and \<open>minimize\<close> get the depth of the recursive
  call, \<open>depth - 1\<close>. Each loop step plays the move on the live state, recurses, and puts the
  saved board, en-passant target and turn back; the state is threaded through.
\<close>

function minimax ::
    "chess_ai \<Rightarrow> game \<Rightarrow> nat \<Rightarrow> score \<Rightarrow> score \<Rightarrow> bool \<Rightarrow> color \<Rightarrow> score \<times> game"
  and maximize ::
    "chess_ai \<Rightarrow> game \<Rightarrow> nat \<Rightarrow> color \<Rightarrow> color \<Rightarrow> valid_move list \<Rightarrow> score \<Rightarrow> score \<Rightarrow> score
      \<Rightarrow> score \<times> game"
  and minimize ::
    "chess_ai \<Rightarrow> game \<Rightarrow> nat \<Rightarrow> color \<Rightarrow> color \<Rightarrow> valid_move list \<Rightarrow> score \<Rightarrow> score \<Rightarrow> score
      \<Rightarrow> score \<times> game"
where
  "minimax ai g 0 alpha beta isMaximizing aiColor = (Number (evaluateBoard g aiColor), g)"
| "minimax ai g (Suc d) alpha beta isMaximizing aiColor =
    (let currentColor = currentTurn g;
         res = getAllValidMovesForMinimax g currentColor;
         moves = fst res;
         g1 = snd res
     in if length moves = 0
        then (if isKingInCheck g1 currentColor
              then (if isMaximizing
                    then Number (- 100000 + (maxDepth ai - int (Suc d)))
                    else Number (100000 - (maxDepth ai - int (Suc d))))
              else Number 0, g1)
        else if isMaximizing
        then maximize ai g1 d currentColor aiColor moves alpha beta MinusInfinity
        else minimize ai g1 d currentColor aiColor moves alpha beta PlusInfinity)"
| "maximize ai g d currentColor aiColor [] alpha beta maxScore = (maxScore, g)"
| "maximize ai g d currentColor aiColor (move # rest) alpha beta maxScore =
    (let originalBoard = copyBoard (board g);
         originalEnPassant = enPassantTarget g;
         g1 = (makeSimulatedMove g move)\<lparr>currentTurn := opponent currentColor\<rparr>;
         res = minimax ai g1 d alpha beta False aiColor;
         g2 = (snd res)\<lparr>board := originalBoard, enPassantTarget := originalEnPassant,
                 currentTurn := currentColor\<rparr>;
         maxScore' = scoreMax maxScore (fst res);
         alpha' = scoreMax alpha (fst res)
     in if scoreLe beta alpha' then (maxScore', g2)
        else maximize ai g2 d currentColor aiColor rest alpha' beta maxScore')"
| "minimize ai g d currentColor aiColor [] alpha beta minScore = (minScore, g)"
| "minimize ai g d currentColor aiColor (move # rest) alpha beta minScore =
    (let originalBoard = copyBoard (board g);
         originalEnPassant = enPassantTarget g;
         g1 = (makeSimulatedMove g move)\<lparr>currentTurn := opponent currentColor\<rparr>;
         res = minimax ai g1 d alpha beta True aiColor;
         g2 = (snd res)\<lparr>board := originalBoard, enPassantTarget := originalEnPassant,
                 currentTurn := currentColor\<rparr>;
         minScore' = scoreMin minScore (fst res);
         beta' = scoreMin beta (fst res)
     in if scoreLe beta' alpha then (minScore', g2)
        else minimize ai g2 d currentColor aiColor rest alpha beta' minScore')"
  by pat_completeness auto
termination
  by (relation "inv_image (less_than <*lex*> less_than) (\<lambda>x. case x of
        Inl (ai, g, depth, alpha, beta, isMax, aiColor) \<Rightarrow> (2 * depth + 1, 0)
      | Inr (Inl (ai, g, d, cc, aiColor, moves, alpha, beta, best)) \<Rightarrow> (2 * d + 2, length moves)
      | Inr (Inr (ai, g, d, cc, aiColor, moves, alpha, beta, best)) \<Rightarrow> (2 * d + 2, length moves))")
    auto

subsection \<open>Choice of the move\<close>

text \<open>
  The loop of \<open>getBestMove\<close> over the sorted moves. \<open>alpha\<close> and \<open>beta\<close> are constants there.
\<close>

fun bestMoveLoop ::
  "chess_ai \<Rightarrow> game \<Rightarrow> color \<Rightarrow> valid_move list \<Rightarrow> valid_move option \<Rightarrow> score
    \<Rightarrow> valid_move option \<times> game" where
  "bestMoveLoop ai g color [] bestMove bestScore = (bestMove, g)"
| "bestMoveLoop ai g color (move # rest) bestMove bestScore =
    (let originalBoard = copyBoard (board g);
         originalEnPassant = enPassantTarget g;
         originalTurn = currentTurn g;
         g0 = g\<lparr>board := copyBoard (board g)\<rparr>;
         g1 = (makeSimulatedMove g0 move)\<lparr>currentTurn := opponent color\<rparr>;
         res = minimax ai g1 (nat (maxDepth ai - 1)) MinusInfinity PlusInfinity False color;
         g2 = (snd res)\<lparr>board := originalBoard, enPassantTarget := originalEnPassant,
                 currentTurn := originalTurn\<rparr>
     in if \<not> scoreLe (fst res) bestScore
        then bestMoveLoop ai g2 color rest (Some move) (fst res)
        else bestMoveLoop ai g2 color rest bestMove bestScore)"

text \<open>
  \<open>getBestMove\<close>. The two parameters \<open>random1\<close> and \<open>random2\<close> are the values of the first
  and the second call of \<open>Math.random\<close>, numbers from 0 up to but not including 1; the first
  is drawn only when \<open>randomFactor\<close> is positive. The result \<open>None\<close> is \<open>null\<close>; an index
  outside the list, which a draw within that range never gives, would read \<open>undefined\<close> and
  is \<open>None\<close> as well.
\<close>

definition getBestMove :: "chess_ai \<Rightarrow> real \<Rightarrow> real \<Rightarrow> game \<Rightarrow> valid_move option \<times> game" where
  "getBestMove ai random1 random2 g =
    (let color = currentTurn g;
         res = getAllValidMoves g color;
         moves = fst res;
         g1 = snd res
     in if length moves = 0 then (None, g1)
        else if randomFactor ai > 0 \<and> random1 < randomFactor ai
        then (let i = \<lfloor>random2 * real (length moves)\<rfloor>
              in (if 0 \<le> i \<and> i < int (length moves) then Some (moves ! nat i) else None, g1))
        else bestMoveLoop ai g1 color (sortMoves moves g1) None MinusInfinity)"

section \<open>Auxiliary notions for the proofs\<close>

text \<open>
  The definitions of this section are not part of the program. They name what the program
  computes (the moves \<open>getValidMoves\<close> returns, what the loops of \<open>checkGameState\<close> and
  \<open>getAllValidMoves\<close> find) and the conditions the theorems need: an 8 by 8 board, and two
  states that agree on the board and the en-passant target.
\<close>

definition legalAfter :: "game \<Rightarrow> int \<Rightarrow> int \<Rightarrow> piece \<Rightarrow> move_info \<Rightarrow> bool" where
  "legalAfter g r c p m = (\<not> isInCheck (simulateMove g r c (mrow m) (mcol m) (Some m)) (pcolor p))"

definition wfBoard :: "board \<Rightarrow> bool" where
  "wfBoard b = (length b = 8 \<and> list_all (\<lambda>r. length r = 8) b)"

definition samePosition :: "game \<Rightarrow> game \<Rightarrow> bool" where
  "samePosition g g' = (board g = board g' \<and> enPassantTarget g = enPassantTarget g')"

definition legalMoves :: "game \<Rightarrow> int \<Rightarrow> int \<Rightarrow> move_info list" where
  "legalMoves g r c =
    (case getPiece g r c of
       None \<Rightarrow> []
     | Some p \<Rightarrow> if pcolor p \<noteq> currentTurn g then []
                 else filter (legalAfter g r c p) (getRawMoves g r c p False))"

definition canMove :: "game \<Rightarrow> square \<Rightarrow> bool" where
  "canMove g s =
    (case getPiece g (fst s) (snd s) of
       None \<Rightarrow> False
     | Some p \<Rightarrow> pcolor p = currentTurn g \<and> legalMoves g (fst s) (snd s) \<noteq> [])"

definition movesFrom :: "game \<Rightarrow> color \<Rightarrow> square \<Rightarrow> valid_move list" where
  "movesFrom g col s =
    (case getPiece g (fst s) (snd s) of
       None \<Rightarrow> []
     | Some p \<Rightarrow> if pcolor p = col
                 then map (\<lambda>m. \<lparr>vfrom = s, vto = m, vpiece = p\<rparr>) (legalMoves g (fst s) (snd s))
                 else [])"

definition checked :: "game \<Rightarrow> game" where
  "checked g = g\<lparr>isCheck := isInCheck g (currentTurn g)\<rparr>"

text \<open>
  One move as the interface plays it (\<open>handleSquareClick\<close>, \<open>handlePromotion\<close>,
  \<open>makeAIMove\<close>): select the piece, which stores its valid moves, call \<open>makeMove\<close>, and
  clear the stored list.
\<close>

definition playMove :: "game \<Rightarrow> square \<Rightarrow> square \<Rightarrow> piece_type option \<Rightarrow> game" where
  "playMove g from to promo =
    (snd (makeMove (selectPiece g (fst from) (snd from)) (fst from) (snd from) (fst to) (snd to)
       promo))\<lparr>validMoves := []\<rparr>"

text \<open>The position after 1. f3 e5 2. g4, black to move.\<close>

definition beforeFoolsMate :: game where
  "beforeFoolsMate =
    playMove (playMove (playMove reset (6, 5) (5, 5) None) (1, 4) (3, 4) None) (6, 6) (4, 6) None"

text \<open>Names for the conditions of the move generators.\<close>

definition ordinary :: "move_info \<Rightarrow> bool" where
  "ordinary m = (\<not> promotion m \<and> \<not> twoStep m \<and> \<not> enPassant m \<and> castling m = None)"

definition freeFor :: "game \<Rightarrow> piece \<Rightarrow> int \<Rightarrow> int \<Rightarrow> bool" where
  "freeFor g p r c = (case getPiece g r c of None \<Rightarrow> True | Some t \<Rightarrow> pcolor t \<noteq> pcolor p)"

definition enemyAt :: "game \<Rightarrow> piece \<Rightarrow> int \<Rightarrow> int \<Rightarrow> bool" where
  "enemyAt g p r c = (case getPiece g r c of None \<Rightarrow> False | Some t \<Rightarrow> pcolor t \<noteq> pcolor p)"

definition direction :: "piece \<Rightarrow> int" where
  "direction p = (if pcolor p = White then - 1 else 1)"

definition startRow :: "piece \<Rightarrow> int" where
  "startRow p = (if pcolor p = White then 6 else 1)"

definition promotionRow :: "piece \<Rightarrow> int" where
  "promotionRow p = (if pcolor p = White then 0 else 7)"

text \<open>The piece \<open>makeMove\<close> leaves on the destination square.\<close>

definition placedPiece :: "piece \<Rightarrow> move_info \<Rightarrow> piece_type option \<Rightarrow> piece" where
  "placedPiece piece moveInfo promo =
    (case promo of
       None \<Rightarrow> piece\<lparr>hasMoved := True\<rparr>
     | Some t \<Rightarrow> if promotion moveInfo then (createPiece t (pcolor piece))\<lparr>hasMoved := True\<rparr>
                else piece\<lparr>hasMoved := True\<rparr>)"

text \<open>Positions used to instantiate the theorems.\<close>

definition emptyRow :: "piece option list" where
  "emptyRow = replicate 8 None"

definition movedPiece :: "piece_type \<Rightarrow> color \<Rightarrow> piece" where
  "movedPiece t c = (createPiece t c)\<lparr>hasMoved := True\<rparr>"

text \<open>White to move, a white pawn on a7 (row 1, column 0), the kings on e8 and e1.\<close>

definition promotionPosition :: game where
  "promotionPosition = reset\<lparr>board :=
     [[None, None, None, None, Some (movedPiece King Black), None, None, None],
      [Some (movedPiece Pawn White), None, None, None, None, None, None, None],
      emptyRow, emptyRow, emptyRow, emptyRow, emptyRow,
      [None, None, None, None, Some (movedPiece King White), None, None, None]]\<rparr>"

text \<open>The position after 1. e2-e4 a7-a6 2. e4-e5 d7-d5, white to move.\<close>

definition enPassantPosition :: game where
  "enPassantPosition =
    playMove (playMove (playMove (playMove reset (6, 4) (4, 4) None) (1, 0) (2, 0) None)
      (4, 4) (3, 4) None) (1, 3) (3, 3) None"

text \<open>
  A square holds a piece that has never moved. \<open>playedOn g g'\<close>: the state \<open>g'\<close> comes
  from \<open>g\<close> by calls of \<open>makeMove\<close>, whatever the interface stored in \<open>validMoves\<close> before
  each call; \<open>undoMove\<close> is not among the steps.
\<close>

definition unmoved :: "game \<Rightarrow> int \<Rightarrow> int \<Rightarrow> bool" where
  "unmoved g r c = (case getPiece g r c of None \<Rightarrow> False | Some p \<Rightarrow> \<not> hasMoved p)"

inductive playedOn :: "game \<Rightarrow> game \<Rightarrow> bool" where
  playedOn_refl: "playedOn g g"
| playedOn_step: "playedOn g g1 \<Longrightarrow>
     playedOn g (snd (makeMove (g1\<lparr>validMoves := vm\<rparr>) fromRow fromCol toRow toCol promo))"

text \<open>
  White to move with king e1 and rooks a1 and h1, none of which has moved; a black rook on
  f8 attacks f1, the square the king would cross when castling kingside.
\<close>

definition castlingPosition :: game where
  "castlingPosition = reset\<lparr>board :=
     [[None, None, None, None, Some (movedPiece King Black), Some (movedPiece Rook Black), None, None],
      emptyRow, emptyRow, emptyRow, emptyRow, emptyRow, emptyRow,
      [Some (createPiece Rook White), None, None, None, Some (createPiece King White), None, None,
       Some (createPiece Rook White)]]\<rparr>"

text \<open>
  What every state the engine produces satisfies: the board is 8 by 8, \<open>isCheck\<close> is the
  check status of the side to move, a finished game has no legal move and an unfinished one
  no winner, the en-passant target is an empty square, and \<open>lastMove\<close> repeats the last
  history entry.
\<close>

definition consistent :: "game \<Rightarrow> bool" where
  "consistent g =
    (wfBoard (board g)
     \<and> isCheck g = isInCheck g (currentTurn g)
     \<and> (if gameOver g then \<not> list_ex (canMove g) allSquares else winner g = None)
     \<and> (case enPassantTarget g of None \<Rightarrow> True | Some s \<Rightarrow> getPiece g (fst s) (snd s) = None)
     \<and> lastMove g = (if moveHistory g = [] then None
                      else Some (hfrom (last (moveHistory g)), hto (last (moveHistory g)))))"

text \<open>A consistent state whose history can be undone entry by entry through consistent states.\<close>

inductive undoable :: "game \<Rightarrow> bool" where
  undoable_start: "consistent g \<Longrightarrow> moveHistory g = [] \<Longrightarrow> undoable g"
| undoable_move: "consistent g \<Longrightarrow> moveHistory g \<noteq> [] \<Longrightarrow> fst (undoMove g) = Inr True \<Longrightarrow>
     undoable (snd (undoMove g)) \<Longrightarrow> undoable g"

text \<open>
  The states the application reaches: a new game, selecting a piece (which stores its valid
  moves), clearing the stored list, \<open>makeMove\<close> from the selected square, and \<open>undoMove\<close>.
\<close>

inductive reachable :: "game \<Rightarrow> bool" where
  reachable_reset: "reachable reset"
| reachable_select: "reachable g \<Longrightarrow> reachable (selectPiece g r c)"
| reachable_deselect: "reachable g \<Longrightarrow> reachable (g\<lparr>validMoves := []\<rparr>)"
| reachable_move: "reachable g \<Longrightarrow> validMoves g = fst (getValidMoves g fromRow fromCol) \<Longrightarrow>
     reachable (snd (makeMove g fromRow fromCol toRow toCol promo))"
| reachable_undo: "reachable g \<Longrightarrow> reachable (snd (undoMove g))"

text \<open>
  Two squares that look the same to an attack on the king of color \<open>c\<close>: both empty, or
  both with a piece of one color; a piece of the other side must be of the same type, a piece
  of color \<open>c\<close> must be a king in both or in neither. The \<open>hasMoved\<close> flag is not looked at.
\<close>

definition cellAlike :: "color \<Rightarrow> piece option \<Rightarrow> piece option \<Rightarrow> bool" where
  "cellAlike c a b =
    (case a of
       None \<Rightarrow> b = None
     | Some p \<Rightarrow>
         (case b of
            None \<Rightarrow> False
          | Some q \<Rightarrow> pcolor q = pcolor p
              \<and> (if pcolor p = c then (ptype q = King) = (ptype p = King)
                  else ptype q = ptype p)))"

section \<open>Basic facts\<close>

declare slideRay.simps [simp del]

declare getRawMoves.simps [simp del] getKingMoves.simps [simp del] getCastlingMoves.simps [simp del]
  isInCheck.simps [simp del] isSquareAttacked.simps [simp del]

lemma copyPiece_id [simp]: "copyPiece p = p"
  by (simp add: copyPiece_def)

lemma copyBoard_id [simp]: "copyBoard b = b"
proof -
  have "(\<lambda>cell. case cell of None \<Rightarrow> None | Some p \<Rightarrow> Some (copyPiece p)) = (\<lambda>cell. cell)"
    by (auto split: option.splits)
  then show ?thesis by (simp add: copyBoard_def)
qed

lemma setPiece_fields [simp]:
  "currentTurn (setPiece g r c p) = currentTurn g"
  "selectedPiece (setPiece g r c p) = selectedPiece g"
  "validMoves (setPiece g r c p) = validMoves g"
  "moveHistory (setPiece g r c p) = moveHistory g"
  "capturedWhite (setPiece g r c p) = capturedWhite g"
  "capturedBlack (setPiece g r c p) = capturedBlack g"
  "enPassantTarget (setPiece g r c p) = enPassantTarget g"
  "gameOver (setPiece g r c p) = gameOver g"
  "winner (setPiece g r c p) = winner g"
  "isCheck (setPiece g r c p) = isCheck g"
  "lastMove (setPiece g r c p) = lastMove g"
  by (simp_all add: setPiece_def)

lemma setPiece_restore [simp]: "(setPiece g r c p)\<lparr>board := b\<rparr> = g\<lparr>board := b\<rparr>"
  by (simp add: setPiece_def)

lemma simulateMove_restore:
  "(simulateMove g a b c d mi)\<lparr>board := bd, enPassantTarget := ep\<rparr> = g\<lparr>board := bd, enPassantTarget := ep\<rparr>"
  by (simp add: simulateMove_def relocateRook_def Let_def split: option.splits castle_side.splits)

lemma getValidMovesLoop_eq:
  "getValidMovesLoop g r c p ms acc = (acc @ filter (legalAfter g r c p) ms, g)"
proof (induction ms arbitrary: acc)
  case Nil
  show ?case by simp
next
  case (Cons m ms)
  have "(simulateMove g r c (mrow m) (mcol m) (Some m))\<lparr>board := board g, enPassantTarget := enPassantTarget g\<rparr> = g"
    by (simp add: simulateMove_restore)
  then show ?case using Cons.IH by (simp add: Let_def legalAfter_def)
qed

lemma getValidMoves_frame: "snd (getValidMoves g r c) = g"
  by (simp add: getValidMoves_def getValidMovesLoop_eq split: option.splits)

lemma wfBoard_nth: "wfBoard b \<Longrightarrow> i < 8 \<Longrightarrow> length (b ! i) = 8"
  by (simp add: wfBoard_def list_all_length)

lemma wfBoard_setPiece [simp]: "wfBoard (board g) \<Longrightarrow> wfBoard (board (setPiece g r c p))"
  by (auto simp: wfBoard_def setPiece_def list_all_length nth_list_update)

lemma getPiece_setPiece:
  assumes "wfBoard (board g)"
  shows "getPiece (setPiece g r c p) r' c' =
         (if r \<ge> 0 \<and> r \<le> 7 \<and> c \<ge> 0 \<and> c \<le> 7 \<and> r' = r \<and> c' = c then p else getPiece g r' c')"
proof (cases "r \<ge> 0 \<and> r \<le> 7 \<and> c \<ge> 0 \<and> c \<le> 7")
  case False
  then show ?thesis by (auto simp: setPiece_def)
next
  case True
  show ?thesis
  proof (cases "r' < 0 \<or> r' > 7 \<or> c' < 0 \<or> c' > 7")
    case True
    then show ?thesis by (auto simp: getPiece_def)
  next
    case False
    have l: "length (board g) = 8" using assms by (simp add: wfBoard_def)
    have lr: "length (board g ! nat r) = 8" using assms True by (intro wfBoard_nth) auto
    have neq: "nat r' = nat r \<longleftrightarrow> r' = r" "nat c' = nat c \<longleftrightarrow> c' = c"
      using True False by auto
    show ?thesis using True False l lr neq
      by (auto simp: getPiece_def setPiece_def nth_list_update)
  qed
qed

lemma board_eqI:
  assumes "wfBoard (board g)" "wfBoard (board g')"
    and "\<And>r c. 0 \<le> r \<Longrightarrow> r \<le> 7 \<Longrightarrow> 0 \<le> c \<Longrightarrow> c \<le> 7 \<Longrightarrow> getPiece g r c = getPiece g' r c"
  shows "board g = board g'"
proof (rule nth_equalityI)
  show "length (board g) = length (board g')" using assms by (simp add: wfBoard_def)
next
  fix i assume i: "i < length (board g)"
  then have i8: "i < 8" using assms by (simp add: wfBoard_def)
  show "board g ! i = board g' ! i"
  proof (rule nth_equalityI)
    show "length (board g ! i) = length (board g' ! i)"
      using assms i8 by (simp add: wfBoard_nth)
  next
    fix j assume "j < length (board g ! i)"
    then have j8: "j < 8" using assms i8 by (simp add: wfBoard_nth)
    have "getPiece g (int i) (int j) = getPiece g' (int i) (int j)"
      using i8 j8 by (intro assms(3)) auto
    then show "board g ! i ! j = board g' ! i ! j"
      using i8 j8 by (simp add: getPiece_def)
  qed
qed

lemma wfBoard_initial: "wfBoard getInitialBoard"
  by code_simp

lemma wfBoard_reset [simp]: "wfBoard (board reset)"
  by (simp add: reset_def wfBoard_initial)

lemma samePosition_getPiece: "samePosition g g' \<Longrightarrow> getPiece g = getPiece g'"
  by (intro ext) (simp add: samePosition_def getPiece_def)

lemma samePosition_slideRay:
  "samePosition g g' \<Longrightarrow> slideRay g p r c dr dc = slideRay g' p r c dr dc"
proof (induction g p r c dr dc rule: slideRay.induct)
  case (1 g p r c dr dc)
  have gp: "getPiece g = getPiece g'" using "1.prems" by (rule samePosition_getPiece)
  show ?case
    using "1.IH" "1.prems" gp
    by (subst slideRay.simps, subst (2) slideRay.simps) (auto split: option.splits)
qed

lemma samePosition_stepMove: "samePosition g g' \<Longrightarrow> stepMove g r c p d = stepMove g' r c p d"
  by (simp add: stepMove_def samePosition_getPiece[of g g'] Let_def)

lemma samePosition_pawnForward: "samePosition g g' \<Longrightarrow> pawnForward g r c p = pawnForward g' r c p"
  by (simp add: pawnForward_def samePosition_getPiece[of g g'] Let_def)

lemma samePosition_pawnDiagonal:
  "samePosition g g' \<Longrightarrow> pawnDiagonal g r c p a dc = pawnDiagonal g' r c p a dc"
  by (simp add: pawnDiagonal_def samePosition_getPiece[of g g'] Let_def samePosition_def)

lemma samePosition_getPawnMoves:
  "samePosition g g' \<Longrightarrow> getPawnMoves g r c p a = getPawnMoves g' r c p a"
  by (simp add: getPawnMoves_def samePosition_pawnForward[of g g'] samePosition_pawnDiagonal[of g g'])

lemma samePosition_getSlidingMoves:
  "samePosition g g' \<Longrightarrow> getSlidingMoves g r c p ds = getSlidingMoves g' r c p ds"
  by (simp add: getSlidingMoves_def samePosition_slideRay[of g g'])

lemma samePosition_getKnightMoves:
  "samePosition g g' \<Longrightarrow> getKnightMoves g r c p = getKnightMoves g' r c p"
proof -
  assume a: "samePosition g g'"
  have "stepMove g r c p = stepMove g' r c p"
    by (intro ext) (rule samePosition_stepMove[OF a])
  then show ?thesis by (simp add: getKnightMoves_def)
qed

lemma samePosition_kingSteps:
  "samePosition g g' \<Longrightarrow> map (stepMove g r c p) ds = map (stepMove g' r c p) ds"
proof -
  assume a: "samePosition g g'"
  have "stepMove g r c p = stepMove g' r c p"
    by (intro ext) (rule samePosition_stepMove[OF a])
  then show ?thesis by simp
qed

lemma samePosition_attackMoves:
  assumes "samePosition g g'"
  shows "getRawMoves g r c p True = getRawMoves g' r c p True"
  by (cases "ptype p")
     (simp_all add: getRawMoves.simps getKingMoves.simps
        samePosition_getPawnMoves[OF assms] samePosition_getSlidingMoves[OF assms]
        samePosition_getKnightMoves[OF assms] samePosition_kingSteps[OF assms])

lemma samePosition_isSquareAttacked:
  "samePosition g g' \<Longrightarrow> isSquareAttacked g r c b = isSquareAttacked g' r c b"
  by (simp add: isSquareAttacked.simps samePosition_attackMoves[of g g'] samePosition_getPiece[of g g']
      cong: option.case_cong)

lemma samePosition_findKing: "samePosition g g' \<Longrightarrow> findKing g c = findKing g' c"
proof -
  assume a: "samePosition g g'"
  have "isPieceOf g = isPieceOf g'"
    by (intro ext) (simp add: isPieceOf_def samePosition_getPiece[OF a])
  then show ?thesis by (simp add: findKing_def)
qed

lemma samePosition_isInCheck: "samePosition g g' \<Longrightarrow> isInCheck g c = isInCheck g' c"
  by (simp add: isInCheck.simps samePosition_findKing[of g g']
      samePosition_isSquareAttacked[of g g'] cong: option.case_cong)

lemma samePosition_getCastlingMoves:
  "samePosition g g' \<Longrightarrow> getCastlingMoves g r c p = getCastlingMoves g' r c p"
  by (simp add: getCastlingMoves.simps samePosition_getPiece[of g g']
      samePosition_isSquareAttacked[of g g'] Let_def cong: option.case_cong)

lemma samePosition_getRawMoves:
  assumes "samePosition g g'"
  shows "getRawMoves g r c p a = getRawMoves g' r c p a"
  by (cases "ptype p")
     (simp_all add: getRawMoves.simps getKingMoves.simps
        samePosition_getPawnMoves[OF assms] samePosition_getSlidingMoves[OF assms]
        samePosition_getKnightMoves[OF assms] samePosition_kingSteps[OF assms]
        samePosition_getCastlingMoves[OF assms] samePosition_isInCheck[OF assms])

lemma samePosition_setPiece:
  "samePosition g g' \<Longrightarrow> samePosition (setPiece g r c p) (setPiece g' r c p)"
  by (simp add: samePosition_def setPiece_def)

lemma samePosition_relocateRook:
  "samePosition g g' \<Longrightarrow> samePosition (relocateRook g r a b) (relocateRook g' r a b)"
  by (simp add: relocateRook_def Let_def samePosition_setPiece samePosition_getPiece[of g g'])

lemma samePosition_simulateMove:
  assumes "samePosition g g'"
  shows "samePosition (simulateMove g a b c d mi) (simulateMove g' a b c d mi)"
proof -
  have gp: "getPiece g = getPiece g'" using assms by (rule samePosition_getPiece)
  show ?thesis
    unfolding simulateMove_def Let_def gp
    by (intro samePosition_setPiece)
       (auto split: option.splits castle_side.splits
             intro!: samePosition_setPiece samePosition_relocateRook assms)
qed

lemma samePosition_legalAfter:
  "samePosition g g' \<Longrightarrow> legalAfter g r c p m = legalAfter g' r c p m"
  unfolding legalAfter_def
  using samePosition_isInCheck[OF samePosition_simulateMove] by blast

lemma getValidMoves_eq: "getValidMoves g r c = (legalMoves g r c, g)"
  by (simp add: getValidMoves_def legalMoves_def getValidMovesLoop_eq split: option.splits)

lemma samePosition_legalMoves:
  assumes "samePosition g g'" "currentTurn g = currentTurn g'"
  shows "legalMoves g r c = legalMoves g' r c"
proof -
  have gp: "getPiece g = getPiece g'" using assms(1) by (rule samePosition_getPiece)
  have la: "\<And>p. legalAfter g r c p = legalAfter g' r c p"
    by (intro ext) (rule samePosition_legalAfter[OF assms(1)])
  show ?thesis
    by (simp add: legalMoves_def gp la assms(2) samePosition_getRawMoves[OF assms(1)]
        cong: option.case_cong if_cong)
qed

lemma hasValidMovesLoop_eq: "hasValidMovesLoop g sqs = (list_ex (canMove g) sqs, g)"
proof (induction sqs)
  case Nil
  show ?case by simp
next
  case (Cons s sqs)
  show ?case
    by (cases "getPiece g (fst s) (snd s)") (simp_all add: Cons.IH getValidMoves_eq canMove_def Let_def)
qed

lemma getAllValidMovesLoop_eq:
  "getAllValidMovesLoop g col sqs acc = (acc @ concat (map (movesFrom g col) sqs), g)"
proof (induction sqs arbitrary: acc)
  case Nil
  show ?case by simp
next
  case (Cons s sqs)
  show ?case
    by (cases "getPiece g (fst s) (snd s)") (simp_all add: Cons.IH getValidMoves_eq movesFrom_def Let_def)
qed

lemma getAllValidMoves_eq:
  "getAllValidMoves g col = (concat (map (movesFrom g col) allSquares), g)"
  by (simp add: getAllValidMoves_def getAllValidMovesLoop_eq)

lemma no_moves_iff:
  "fst (getAllValidMoves g (currentTurn g)) = [] \<longleftrightarrow> \<not> list_ex (canMove g) allSquares"
proof -
  have "\<And>s. movesFrom g (currentTurn g) s = [] \<longleftrightarrow> \<not> canMove g s"
    by (simp add: movesFrom_def canMove_def split: option.splits)
  then show ?thesis
    by (simp add: getAllValidMoves_eq list_ex_iff)
qed

lemma samePosition_canMove:
  assumes "samePosition g g'" "currentTurn g = currentTurn g'"
  shows "canMove g s = canMove g' s"
  by (simp add: canMove_def samePosition_getPiece[OF assms(1)] assms(2)
      samePosition_legalMoves[OF assms] cong: option.case_cong)

lemma samePosition_refl [simp]: "samePosition g g"
  by (simp add: samePosition_def)

lemma samePosition_sym: "samePosition g g' \<Longrightarrow> samePosition g' g"
  by (simp add: samePosition_def)

lemma samePosition_trans: "samePosition g g' \<Longrightarrow> samePosition g' g'' \<Longrightarrow> samePosition g g''"
  by (simp add: samePosition_def)

lemma checked_simps [simp]:
  "samePosition (checked g) g" "currentTurn (checked g) = currentTurn g"
  "isCheck (checked g) = isInCheck g (currentTurn g)"
  "gameOver (checked g) = gameOver g" "winner (checked g) = winner g"
  "board (checked g) = board g" "enPassantTarget (checked g) = enPassantTarget g"
  "moveHistory (checked g) = moveHistory g" "validMoves (checked g) = validMoves g"
  "capturedWhite (checked g) = capturedWhite g" "capturedBlack (checked g) = capturedBlack g"
  "lastMove (checked g) = lastMove g" "selectedPiece (checked g) = selectedPiece g"
  by (simp_all add: checked_def samePosition_def)

lemma checkGameState_eq:
  "checkGameState g =
    (if list_ex (canMove g) allSquares then checked g
     else (checked g)\<lparr>gameOver := True,
            winner := Some (if isInCheck g (currentTurn g) then Win (opponent (currentTurn g))
                            else Draw)\<rparr>)"
proof -
  have "canMove (checked g) = canMove g"
    by (intro ext samePosition_canMove) simp_all
  then show ?thesis
    by (simp add: checkGameState_def hasValidMovesLoop_eq Let_def checked_def[symmetric])
qed

lemma checkGameState_position [simp]:
  "samePosition (checkGameState g) g" "currentTurn (checkGameState g) = currentTurn g"
  "board (checkGameState g) = board g" "enPassantTarget (checkGameState g) = enPassantTarget g"
  "moveHistory (checkGameState g) = moveHistory g" "validMoves (checkGameState g) = validMoves g"
  "capturedWhite (checkGameState g) = capturedWhite g"
  "capturedBlack (checkGameState g) = capturedBlack g"
  "lastMove (checkGameState g) = lastMove g" "selectedPiece (checkGameState g) = selectedPiece g"
  "isCheck (checkGameState g) = isInCheck g (currentTurn g)"
  by (simp_all add: checkGameState_eq samePosition_def)

lemma checkGameState_getPiece [simp]: "getPiece (checkGameState g) = getPiece g"
  by (intro ext) (simp add: getPiece_def)

lemma checkGameState_terminal:
  "\<not> list_ex (canMove g) allSquares \<Longrightarrow>
     gameOver (checkGameState g) \<and>
     winner (checkGameState g) =
       Some (if isInCheck g (currentTurn g) then Win (opponent (currentTurn g)) else Draw)"
  by (simp add: checkGameState_eq)

lemma checkGameState_ongoing:
  "list_ex (canMove g) allSquares \<Longrightarrow>
     gameOver (checkGameState g) = gameOver g \<and> winner (checkGameState g) = winner g"
  by (simp add: checkGameState_eq)

lemma checkGameState_canMove: "canMove (checkGameState g) = canMove g"
  by (intro ext samePosition_canMove) simp_all

lemma checkGameState_isInCheck: "isInCheck (checkGameState g) c = isInCheck g c"
  by (rule samePosition_isInCheck) simp

section \<open>Facts about \<open>makeMove\<close>\<close>

lemma pushCaptured_fields [simp]:
  "currentTurn (pushCaptured g c p) = currentTurn g"
  "board (pushCaptured g c p) = board g"
  "enPassantTarget (pushCaptured g c p) = enPassantTarget g"
  "gameOver (pushCaptured g c p) = gameOver g"
  "winner (pushCaptured g c p) = winner g"
  "moveHistory (pushCaptured g c p) = moveHistory g"
  "validMoves (pushCaptured g c p) = validMoves g"
  "lastMove (pushCaptured g c p) = lastMove g"
  "isCheck (pushCaptured g c p) = isCheck g"
  "selectedPiece (pushCaptured g c p) = selectedPiece g"
  by (simp_all add: pushCaptured_def)

lemma popCaptured_fields [simp]:
  "currentTurn (popCaptured g c) = currentTurn g"
  "board (popCaptured g c) = board g"
  "enPassantTarget (popCaptured g c) = enPassantTarget g"
  "gameOver (popCaptured g c) = gameOver g"
  "winner (popCaptured g c) = winner g"
  "moveHistory (popCaptured g c) = moveHistory g"
  "validMoves (popCaptured g c) = validMoves g"
  "lastMove (popCaptured g c) = lastMove g"
  "isCheck (popCaptured g c) = isCheck g"
  "selectedPiece (popCaptured g c) = selectedPiece g"
  by (simp_all add: popCaptured_def)

lemma getPiece_pushCaptured [simp]: "getPiece (pushCaptured g c p) = getPiece g"
  by (intro ext) (simp add: getPiece_def)

lemma getPiece_popCaptured [simp]: "getPiece (popCaptured g c) = getPiece g"
  by (intro ext) (simp add: getPiece_def)

lemma castleRook_fields:
  assumes "castleRook g r a b f = Inr g'"
  shows "currentTurn g' = currentTurn g" "enPassantTarget g' = enPassantTarget g"
    "gameOver g' = gameOver g" "winner g' = winner g" "moveHistory g' = moveHistory g"
    "validMoves g' = validMoves g" "lastMove g' = lastMove g" "isCheck g' = isCheck g"
    "capturedWhite g' = capturedWhite g" "capturedBlack g' = capturedBlack g"
    "selectedPiece g' = selectedPiece g"
  using assms by (auto simp: castleRook_def split: option.splits)

lemma afterCapture_fields [simp]:
  "currentTurn (afterCapture g piece mi toRow toCol) = currentTurn g"
  "enPassantTarget (afterCapture g piece mi toRow toCol) = enPassantTarget g"
  "gameOver (afterCapture g piece mi toRow toCol) = gameOver g"
  "winner (afterCapture g piece mi toRow toCol) = winner g"
  "moveHistory (afterCapture g piece mi toRow toCol) = moveHistory g"
  "validMoves (afterCapture g piece mi toRow toCol) = validMoves g"
  "lastMove (afterCapture g piece mi toRow toCol) = lastMove g"
  "isCheck (afterCapture g piece mi toRow toCol) = isCheck g"
  "selectedPiece (afterCapture g piece mi toRow toCol) = selectedPiece g"
  by (simp_all add: afterCapture_def Let_def split: option.splits)

lemma afterCastling_fields:
  assumes "afterCastling g mi r = Inr g'"
  shows "currentTurn g' = currentTurn g" "enPassantTarget g' = enPassantTarget g"
    "gameOver g' = gameOver g" "winner g' = winner g" "moveHistory g' = moveHistory g"
    "validMoves g' = validMoves g" "lastMove g' = lastMove g" "isCheck g' = isCheck g"
    "capturedWhite g' = capturedWhite g" "capturedBlack g' = capturedBlack g"
    "selectedPiece g' = selectedPiece g"
  using assms castleRook_fields[of g r _ _ True g']
  by (auto simp: afterCastling_def split: option.splits castle_side.splits)

lemma movePiece_fields [simp]:
  "currentTurn (movePiece g p mi a b c d pr) = currentTurn g"
  "enPassantTarget (movePiece g p mi a b c d pr) = enPassantTarget g"
  "gameOver (movePiece g p mi a b c d pr) = gameOver g"
  "winner (movePiece g p mi a b c d pr) = winner g"
  "moveHistory (movePiece g p mi a b c d pr) = moveHistory g"
  "validMoves (movePiece g p mi a b c d pr) = validMoves g"
  "lastMove (movePiece g p mi a b c d pr) = lastMove g"
  "isCheck (movePiece g p mi a b c d pr) = isCheck g"
  "capturedWhite (movePiece g p mi a b c d pr) = capturedWhite g"
  "capturedBlack (movePiece g p mi a b c d pr) = capturedBlack g"
  "selectedPiece (movePiece g p mi a b c d pr) = selectedPiece g"
  by (simp_all add: movePiece_def Let_def split: option.splits)

lemma beforeCheck_fields [simp]:
  "currentTurn (beforeCheck g p mi mv a b c d pr) = opponent (currentTurn g)"
  "enPassantTarget (beforeCheck g p mi mv a b c d pr) =
     (if twoStep mi then Some (capturedRowFor p c, d) else None)"
  "gameOver (beforeCheck g p mi mv a b c d pr) = gameOver g"
  "winner (beforeCheck g p mi mv a b c d pr) = winner g"
  "moveHistory (beforeCheck g p mi mv a b c d pr) = moveHistory g @ [mv]"
  "validMoves (beforeCheck g p mi mv a b c d pr) = validMoves g"
  "lastMove (beforeCheck g p mi mv a b c d pr) = Some ((a, b), (c, d))"
  "isCheck (beforeCheck g p mi mv a b c d pr) = isCheck g"
  "capturedWhite (beforeCheck g p mi mv a b c d pr) = capturedWhite g"
  "capturedBlack (beforeCheck g p mi mv a b c d pr) = capturedBlack g"
  "selectedPiece (beforeCheck g p mi mv a b c d pr) = selectedPiece g"
  "board (beforeCheck g p mi mv a b c d pr) = board (movePiece g p mi a b c d pr)"
  by (simp_all add: beforeCheck_def Let_def)

lemma getPiece_beforeCheck [simp]:
  "getPiece (beforeCheck g p mi mv a b c d pr) = getPiece (movePiece g p mi a b c d pr)"
  by (intro ext) (simp add: getPiece_def)

lemma makeMove_reject:
  "getPiece g fromRow fromCol = None \<or> find (hitsSquare toRow toCol) (validMoves g) = None
   \<Longrightarrow> makeMove g fromRow fromCol toRow toCol promo = (Inr False, g)"
  by (auto simp: makeMove_def split: option.splits)

lemma makeMove_True:
  assumes "fst (makeMove g fromRow fromCol toRow toCol promo) = Inr True"
  obtains piece mi g3 where
    "getPiece g fromRow fromCol = Some piece"
    "find (hitsSquare toRow toCol) (validMoves g) = Some mi"
    "afterCastling (afterCapture g piece mi toRow toCol) mi fromRow = Inr g3"
    "snd (makeMove g fromRow fromCol toRow toCol promo) =
       checkGameState (beforeCheck g3 piece mi
         (historyEntry g piece mi fromRow fromCol toRow toCol promo)
         fromRow fromCol toRow toCol promo)"
proof -
  obtain piece where p: "getPiece g fromRow fromCol = Some piece"
    using assms by (cases "getPiece g fromRow fromCol") (auto simp: makeMove_def)
  obtain mi where m: "find (hitsSquare toRow toCol) (validMoves g) = Some mi"
    using assms p by (cases "find (hitsSquare toRow toCol) (validMoves g)") (auto simp: makeMove_def)
  obtain g3 where g3: "afterCastling (afterCapture g piece mi toRow toCol) mi fromRow = Inr g3"
    using assms p m
    by (cases "afterCastling (afterCapture g piece mi toRow toCol) mi fromRow")
       (auto simp: makeMove_def Let_def)
  show ?thesis
    by (rule that[OF p m g3]) (simp add: makeMove_def p m g3 Let_def)
qed

lemma makeMove_terminal:
  assumes "fst (makeMove g fromRow fromCol toRow toCol promo) = Inr True"
  shows "isCheck (snd (makeMove g fromRow fromCol toRow toCol promo))
           = isInCheck (snd (makeMove g fromRow fromCol toRow toCol promo))
               (currentTurn (snd (makeMove g fromRow fromCol toRow toCol promo)))"
    and "currentTurn (snd (makeMove g fromRow fromCol toRow toCol promo)) = opponent (currentTurn g)"
    and "fst (getAllValidMoves (snd (makeMove g fromRow fromCol toRow toCol promo))
               (opponent (currentTurn g))) = [] \<Longrightarrow>
         gameOver (snd (makeMove g fromRow fromCol toRow toCol promo)) \<and>
         winner (snd (makeMove g fromRow fromCol toRow toCol promo)) =
           Some (if isCheck (snd (makeMove g fromRow fromCol toRow toCol promo))
                 then Win (currentTurn g) else Draw)"
proof -
  from assms obtain piece mi g3 where
    g3: "afterCastling (afterCapture g piece mi toRow toCol) mi fromRow = Inr g3" and
    mm: "snd (makeMove g fromRow fromCol toRow toCol promo) =
       checkGameState (beforeCheck g3 piece mi
         (historyEntry g piece mi fromRow fromCol toRow toCol promo)
         fromRow fromCol toRow toCol promo)"
    by (rule makeMove_True)
  define g6 where "g6 = beforeCheck g3 piece mi
         (historyEntry g piece mi fromRow fromCol toRow toCol promo)
         fromRow fromCol toRow toCol promo"
  have ct: "currentTurn g6 = opponent (currentTurn g)"
    by (simp add: g6_def afterCastling_fields[OF g3])
  have g6: "snd (makeMove g fromRow fromCol toRow toCol promo) = checkGameState g6"
    by (simp add: mm g6_def)
  have oo: "opponent (opponent (currentTurn g)) = currentTurn g"
    by (cases "currentTurn g") (simp_all add: opponent_def)
  show "isCheck (snd (makeMove g fromRow fromCol toRow toCol promo))
           = isInCheck (snd (makeMove g fromRow fromCol toRow toCol promo))
               (currentTurn (snd (makeMove g fromRow fromCol toRow toCol promo)))"
    by (simp add: g6 checkGameState_isInCheck)
  show "currentTurn (snd (makeMove g fromRow fromCol toRow toCol promo)) = opponent (currentTurn g)"
    by (simp add: g6 ct)
  assume "fst (getAllValidMoves (snd (makeMove g fromRow fromCol toRow toCol promo))
               (opponent (currentTurn g))) = []"
  then have "fst (getAllValidMoves (checkGameState g6) (currentTurn (checkGameState g6))) = []"
    by (simp add: g6 ct)
  then have "\<not> list_ex (canMove g6) allSquares"
    using no_moves_iff[of "checkGameState g6"] by (simp add: checkGameState_canMove)
  from checkGameState_terminal[OF this]
  show "gameOver (snd (makeMove g fromRow fromCol toRow toCol promo)) \<and>
         winner (snd (makeMove g fromRow fromCol toRow toCol promo)) =
           Some (if isCheck (snd (makeMove g fromRow fromCol toRow toCol promo))
                 then Win (currentTurn g) else Draw)"
    by (simp add: g6 ct oo)
qed

lemma makeMove_ongoing:
  assumes "fst (makeMove g fromRow fromCol toRow toCol promo) = Inr True"
    and "fst (getAllValidMoves (snd (makeMove g fromRow fromCol toRow toCol promo))
               (opponent (currentTurn g))) \<noteq> []"
  shows "gameOver (snd (makeMove g fromRow fromCol toRow toCol promo)) = gameOver g"
    and "winner (snd (makeMove g fromRow fromCol toRow toCol promo)) = winner g"
proof -
  from assms(1) obtain piece mi g3 where
    g3: "afterCastling (afterCapture g piece mi toRow toCol) mi fromRow = Inr g3" and
    mm: "snd (makeMove g fromRow fromCol toRow toCol promo) =
       checkGameState (beforeCheck g3 piece mi
         (historyEntry g piece mi fromRow fromCol toRow toCol promo)
         fromRow fromCol toRow toCol promo)"
    by (rule makeMove_True)
  define g6 where "g6 = beforeCheck g3 piece mi
         (historyEntry g piece mi fromRow fromCol toRow toCol promo)
         fromRow fromCol toRow toCol promo"
  have ct: "currentTurn g6 = opponent (currentTurn g)"
    by (simp add: g6_def afterCastling_fields[OF g3])
  have g6: "snd (makeMove g fromRow fromCol toRow toCol promo) = checkGameState g6"
    by (simp add: mm g6_def)
  have same: "gameOver g6 = gameOver g" "winner g6 = winner g"
    by (simp_all add: g6_def afterCastling_fields[OF g3])
  have "fst (getAllValidMoves (checkGameState g6) (currentTurn (checkGameState g6))) \<noteq> []"
    using assms(2) by (simp add: g6 ct)
  then have "list_ex (canMove g6) allSquares"
    using no_moves_iff[of "checkGameState g6"] by (simp add: checkGameState_canMove)
  from checkGameState_ongoing[OF this]
  show "gameOver (snd (makeMove g fromRow fromCol toRow toCol promo)) = gameOver g"
    and "winner (snd (makeMove g fromRow fromCol toRow toCol promo)) = winner g"
    by (simp_all add: g6 same)
qed

section \<open>What the generators produce\<close>

lemma plainMove_fields [simp]:
  "mrow (plainMove r c) = r" "mcol (plainMove r c) = c" "promotion (plainMove r c) = False"
  "twoStep (plainMove r c) = False" "capture (plainMove r c) = False"
  "enPassant (plainMove r c) = False" "castling (plainMove r c) = None"
  by (simp_all add: plainMove_def)

lemma stepMove_mem:
  assumes "m \<in> set (stepMove g r c p d)"
  shows "mrow m = r + fst d" "mcol m = c + snd d" "onBoard (mrow m) (mcol m)" "ordinary m"
    "freeFor g p (mrow m) (mcol m)"
  using assms
  by (auto simp: stepMove_def Let_def onBoard_def ordinary_def freeFor_def
           split: if_splits option.splits)

lemma slideRay_mem:
  "m \<in> set (slideRay g p r c dr dc) \<Longrightarrow>
     onBoard (mrow m) (mcol m) \<and> ordinary m \<and> freeFor g p (mrow m) (mcol m)"
proof (induction g p r c dr dc rule: slideRay.induct)
  case (1 g p r c dr dc)
  show ?case
  proof (cases "r \<ge> 0 \<and> r \<le> 7 \<and> c \<ge> 0 \<and> c \<le> 7 \<and> (dr \<noteq> 0 \<or> dc \<noteq> 0)")
    case False
    with "1.prems" show ?thesis by (subst (asm) slideRay.simps) simp
  next
    case True
    show ?thesis
    proof (cases "getPiece g r c")
      case None
      with True "1.prems" have "m = plainMove r c \<or> m \<in> set (slideRay g p (r + dr) (c + dc) dr dc)"
        by (subst (asm) slideRay.simps) auto
      then show ?thesis
      proof
        assume "m = plainMove r c"
        with True None show ?thesis by (simp add: onBoard_def ordinary_def freeFor_def)
      next
        assume "m \<in> set (slideRay g p (r + dr) (c + dc) dr dc)"
        with "1.IH"[OF True None] show ?thesis .
      qed
    next
      case (Some t)
      with True "1.prems" have "pcolor t \<noteq> pcolor p \<and> m = (plainMove r c)\<lparr>capture := True\<rparr>"
        by (subst (asm) slideRay.simps) (auto split: if_splits)
      with True Some show ?thesis by (simp add: onBoard_def ordinary_def freeFor_def)
    qed
  qed
qed

lemma getSlidingMoves_mem:
  "m \<in> set (getSlidingMoves g r c p ds) \<Longrightarrow>
     onBoard (mrow m) (mcol m) \<and> ordinary m \<and> freeFor g p (mrow m) (mcol m)"
  by (auto simp: getSlidingMoves_def dest!: slideRay_mem)

lemma getKnightMoves_mem:
  "m \<in> set (getKnightMoves g r c p) \<Longrightarrow>
     onBoard (mrow m) (mcol m) \<and> ordinary m \<and> freeFor g p (mrow m) (mcol m)"
  by (auto simp: getKnightMoves_def dest: stepMove_mem)

lemma pawnForward_mem:
  assumes "m \<in> set (pawnForward g r c p)"
  shows "mcol m = c" "\<not> enPassant m" "castling m = None" "\<not> capture m"
    "getPiece g (mrow m) (mcol m) = None"
    "getPiece g (r + direction p) c = None"
    "twoStep m \<longrightarrow> mrow m = r + 2 * direction p \<and> r = startRow p \<and> \<not> promotion m"
    "\<not> twoStep m \<longrightarrow> mrow m = r + direction p \<and> 0 \<le> mrow m \<and> mrow m \<le> 7
        \<and> promotion m = (mrow m = promotionRow p)"
  using assms
  by (auto simp: pawnForward_def Let_def direction_def startRow_def promotionRow_def
           split: if_splits)

lemma pawnDiagonal_mem:
  assumes "m \<in> set (pawnDiagonal g r c p a dc)"
  shows "mrow m = r + direction p" "mcol m = c + dc" "onBoard (mrow m) (mcol m)"
    "\<not> twoStep m" "castling m = None"
    "enPassant m \<longrightarrow> \<not> a \<and> enPassantTarget g = Some (mrow m, mcol m) \<and> \<not> promotion m"
    "\<not> enPassant m \<longrightarrow> \<not> a \<longrightarrow> enemyAt g p (mrow m) (mcol m)
        \<and> capture m \<and> promotion m = (mrow m = promotionRow p)"
    "a \<longrightarrow> ordinary m"
  using assms
  by (auto simp: pawnDiagonal_def Let_def direction_def promotionRow_def onBoard_def ordinary_def
           enemyAt_def split: if_splits option.splits)

lemma enemyAt_freeFor: "enemyAt g p r c \<Longrightarrow> freeFor g p r c"
  by (auto simp: enemyAt_def freeFor_def split: option.splits)

lemma getPawnMoves_mem:
  assumes "m \<in> set (getPawnMoves g r c p a)"
  shows "m \<in> set (pawnForward g r c p) \<and> \<not> a \<or> m \<in> set (pawnDiagonal g r c p a (- 1))
         \<or> m \<in> set (pawnDiagonal g r c p a 1)"
  using assms by (auto simp: getPawnMoves_def split: if_splits)

lemma getCastlingMoves_mem:
  assumes "m \<in> set (getCastlingMoves g r c p)"
  shows "mrow m = r" "\<not> promotion m" "\<not> twoStep m" "\<not> enPassant m" "\<not> capture m"
    "getPiece g (mrow m) (mcol m) = None"
    "castling m = Some Kingside \<or> castling m = Some Queenside"
    "castling m = Some Kingside \<longrightarrow> mcol m = 6
       \<and> (case getPiece g r 7 of None \<Rightarrow> False | Some rook \<Rightarrow> ptype rook = Rook \<and> \<not> hasMoved rook)
       \<and> getPiece g r 5 = None \<and> getPiece g r 6 = None
       \<and> \<not> isSquareAttacked g r 5 (opponent (pcolor p))
       \<and> \<not> isSquareAttacked g r 6 (opponent (pcolor p))"
    "castling m = Some Queenside \<longrightarrow> mcol m = 2
       \<and> (case getPiece g r 0 of None \<Rightarrow> False | Some rook \<Rightarrow> ptype rook = Rook \<and> \<not> hasMoved rook)
       \<and> getPiece g r 1 = None \<and> getPiece g r 2 = None \<and> getPiece g r 3 = None
       \<and> \<not> isSquareAttacked g r 2 (opponent (pcolor p))
       \<and> \<not> isSquareAttacked g r 3 (opponent (pcolor p))"
  using assms
  by (auto simp: getCastlingMoves.simps Let_def split: option.splits if_splits)

lemma getKingMoves_mem:
  assumes "m \<in> set (getKingMoves g r c p a)"
  shows "(\<exists>d \<in> set kingOffsets. m \<in> set (stepMove g r c p d))
         \<or> (\<not> a \<and> \<not> hasMoved p \<and> \<not> isInCheck g (pcolor p) \<and> m \<in> set (getCastlingMoves g r c p))"
  using assms by (auto simp: getKingMoves.simps split: if_splits)

lemma rawMove_cases [consumes 1, case_names forward diagonal castle plain]:
  assumes "m \<in> set (getRawMoves g r c p a)"
  obtains
    "ptype p = Pawn" "\<not> a" "m \<in> set (pawnForward g r c p)"
  | dc where "ptype p = Pawn" "dc = - 1 \<or> dc = 1" "m \<in> set (pawnDiagonal g r c p a dc)"
  | "ptype p = King" "\<not> a" "\<not> hasMoved p" "\<not> isInCheck g (pcolor p)"
      "m \<in> set (getCastlingMoves g r c p)"
  | "ptype p \<noteq> Pawn" "ordinary m" "onBoard (mrow m) (mcol m)" "freeFor g p (mrow m) (mcol m)"
proof (cases "ptype p")
  case King
  with assms have "m \<in> set (getKingMoves g r c p a)" by (simp add: getRawMoves.simps)
  from getKingMoves_mem[OF this] show ?thesis
  proof
    assume "\<exists>d \<in> set kingOffsets. m \<in> set (stepMove g r c p d)"
    then obtain d where "m \<in> set (stepMove g r c p d)" by blast
    from stepMove_mem[OF this] King show ?thesis by (intro that(4)) simp_all
  next
    assume "\<not> a \<and> \<not> hasMoved p \<and> \<not> isInCheck g (pcolor p) \<and> m \<in> set (getCastlingMoves g r c p)"
    with King show ?thesis by (intro that(3)) simp_all
  qed
next
  case Queen
  with assms have "m \<in> set (getSlidingMoves g r c p (rookDirections @ bishopDirections))"
    by (simp add: getRawMoves.simps)
  from getSlidingMoves_mem[OF this] Queen show ?thesis by (intro that(4)) simp_all
next
  case Rook
  with assms have "m \<in> set (getSlidingMoves g r c p rookDirections)"
    by (simp add: getRawMoves.simps)
  from getSlidingMoves_mem[OF this] Rook show ?thesis by (intro that(4)) simp_all
next
  case Bishop
  with assms have "m \<in> set (getSlidingMoves g r c p bishopDirections)"
    by (simp add: getRawMoves.simps)
  from getSlidingMoves_mem[OF this] Bishop show ?thesis by (intro that(4)) simp_all
next
  case Knight
  with assms have "m \<in> set (getKnightMoves g r c p)"
    by (simp add: getRawMoves.simps)
  from getKnightMoves_mem[OF this] Knight show ?thesis by (intro that(4)) simp_all
next
  case Pawn
  with assms have "m \<in> set (getPawnMoves g r c p a)"
    by (simp add: getRawMoves.simps)
  from getPawnMoves_mem[OF this] Pawn show ?thesis
    using that(1) that(2)[of "- 1"] that(2)[of 1] by blast
qed

lemma rawMove_onBoard:
  assumes "m \<in> set (getRawMoves g r c p a)" "onBoard r c"
  shows "onBoard (mrow m) (mcol m)"
  using assms(1)
proof (cases rule: rawMove_cases)
  case forward
  from pawnForward_mem[OF forward(3)] assms(2) show ?thesis
    by (auto simp: onBoard_def startRow_def direction_def split: if_splits)
next
  case (diagonal dc)
  from pawnDiagonal_mem[OF diagonal(3)] show ?thesis by simp
next
  case castle
  from getCastlingMoves_mem[OF castle(5)] assms(2) show ?thesis
    by (auto simp: onBoard_def)
next
  case plain
  then show ?thesis by simp
qed

lemma rawMove_notOrigin:
  assumes "m \<in> set (getRawMoves g r c p a)" "getPiece g r c = Some p"
  shows "mrow m \<noteq> r \<or> mcol m \<noteq> c"
  using assms(1)
proof (cases rule: rawMove_cases)
  case forward
  from pawnForward_mem(5)[OF forward(3)] assms(2) show ?thesis by auto
next
  case (diagonal dc)
  from pawnDiagonal_mem(1)[OF diagonal(3)] show ?thesis by (simp add: direction_def)
next
  case castle
  from getCastlingMoves_mem(6)[OF castle(5)] assms(2) show ?thesis by auto
next
  case plain
  with assms(2) show ?thesis by (auto simp: freeFor_def)
qed

lemma rawMove_twoStep:
  assumes "m \<in> set (getRawMoves g r c p a)" "twoStep m"
  shows "ptype p = Pawn" "\<not> a" "m \<in> set (pawnForward g r c p)"
    "\<not> enPassant m" "castling m = None" "\<not> promotion m"
    "mrow m = r + 2 * direction p" "mcol m = c" "r = startRow p"
    "getPiece g (r + direction p) c = None" "getPiece g (mrow m) (mcol m) = None"
proof -
  have "ptype p = Pawn \<and> \<not> a \<and> m \<in> set (pawnForward g r c p)"
    using assms(1)
  proof (cases rule: rawMove_cases)
    case forward
    then show ?thesis by simp
  next
    case (diagonal dc)
    from pawnDiagonal_mem(4)[OF diagonal(3)] assms(2) show ?thesis by simp
  next
    case castle
    from getCastlingMoves_mem(3)[OF castle(5)] assms(2) show ?thesis by simp
  next
    case plain
    with assms(2) show ?thesis by (simp add: ordinary_def)
  qed
  then have f: "m \<in> set (pawnForward g r c p)" and "ptype p = Pawn" "\<not> a" by simp_all
  then show "ptype p = Pawn" "\<not> a" "m \<in> set (pawnForward g r c p)" by simp_all
  from pawnForward_mem[OF f] assms(2)
  show "\<not> enPassant m" "castling m = None" "\<not> promotion m"
    "mrow m = r + 2 * direction p" "mcol m = c" "r = startRow p"
    "getPiece g (r + direction p) c = None" "getPiece g (mrow m) (mcol m) = None"
    by simp_all
qed

lemma rawMove_enPassant:
  assumes "m \<in> set (getRawMoves g r c p a)" "enPassant m"
  shows "ptype p = Pawn" "\<not> a" "enPassantTarget g = Some (mrow m, mcol m)"
    "\<not> twoStep m" "castling m = None" "\<not> promotion m"
    "mrow m = r + direction p" "mcol m = c - 1 \<or> mcol m = c + 1" "onBoard (mrow m) (mcol m)"
proof -
  have "\<exists>dc. ptype p = Pawn \<and> (dc = - 1 \<or> dc = 1) \<and> m \<in> set (pawnDiagonal g r c p a dc)"
    using assms(1)
  proof (cases rule: rawMove_cases)
    case forward
    from pawnForward_mem(2)[OF forward(3)] assms(2) show ?thesis by simp
  next
    case (diagonal dc)
    then show ?thesis by blast
  next
    case castle
    from getCastlingMoves_mem(4)[OF castle(5)] assms(2) show ?thesis by simp
  next
    case plain
    with assms(2) show ?thesis by (simp add: ordinary_def)
  qed
  then obtain dc where k: "ptype p = Pawn" "dc = - 1 \<or> dc = 1"
    "m \<in> set (pawnDiagonal g r c p a dc)" by blast
  from pawnDiagonal_mem[OF k(3)] assms(2) k(1,2)
  show "ptype p = Pawn" "\<not> a" "enPassantTarget g = Some (mrow m, mcol m)"
    "\<not> twoStep m" "castling m = None" "\<not> promotion m"
    "mrow m = r + direction p" "mcol m = c - 1 \<or> mcol m = c + 1" "onBoard (mrow m) (mcol m)"
    by auto
qed

lemma rawMove_castling:
  assumes "m \<in> set (getRawMoves g r c p a)" "castling m \<noteq> None"
  shows "ptype p = King" "\<not> a" "\<not> hasMoved p" "\<not> isInCheck g (pcolor p)"
    "m \<in> set (getCastlingMoves g r c p)"
proof -
  have "ptype p = King \<and> \<not> a \<and> \<not> hasMoved p \<and> \<not> isInCheck g (pcolor p)
        \<and> m \<in> set (getCastlingMoves g r c p)"
    using assms(1)
  proof (cases rule: rawMove_cases)
    case forward
    from pawnForward_mem(3)[OF forward(3)] assms(2) show ?thesis by simp
  next
    case (diagonal dc)
    from pawnDiagonal_mem(5)[OF diagonal(3)] assms(2) show ?thesis by simp
  next
    case castle
    then show ?thesis by simp
  next
    case plain
    with assms(2) show ?thesis by (simp add: ordinary_def)
  qed
  then show "ptype p = King" "\<not> a" "\<not> hasMoved p" "\<not> isInCheck g (pcolor p)"
    "m \<in> set (getCastlingMoves g r c p)" by simp_all
qed

lemma rawMove_promotion:
  assumes "m \<in> set (getRawMoves g r c p a)" "promotion m"
  shows "ptype p = Pawn" "\<not> a" "\<not> twoStep m" "\<not> enPassant m" "castling m = None"
    "mrow m = r + direction p" "mrow m = promotionRow p"
proof -
  have "ptype p = Pawn \<and> \<not> a \<and> \<not> twoStep m \<and> \<not> enPassant m \<and> castling m = None
        \<and> mrow m = r + direction p \<and> mrow m = promotionRow p"
    using assms(1)
  proof (cases rule: rawMove_cases)
    case forward
    from pawnForward_mem[OF forward(3)] assms(2) forward(1,2) show ?thesis by auto
  next
    case (diagonal dc)
    from pawnDiagonal_mem[OF diagonal(3)] assms(2) diagonal(1) show ?thesis
      by (auto simp: ordinary_def)
  next
    case castle
    from getCastlingMoves_mem(2)[OF castle(5)] assms(2) show ?thesis by simp
  next
    case plain
    with assms(2) show ?thesis by (simp add: ordinary_def)
  qed
  then show "ptype p = Pawn" "\<not> a" "\<not> twoStep m" "\<not> enPassant m" "castling m = None"
    "mrow m = r + direction p" "mrow m = promotionRow p" by simp_all
qed

text \<open>Moves found by \<open>makeMove\<close> in a list that \<open>getValidMoves\<close> produced.\<close>

lemma legalMoves_raw:
  assumes "m \<in> set (legalMoves g r c)"
  obtains p where "getPiece g r c = Some p" "pcolor p = currentTurn g"
    "m \<in> set (getRawMoves g r c p False)" "legalAfter g r c p m"
proof (cases "getPiece g r c")
  case None
  with assms show ?thesis by (simp add: legalMoves_def)
next
  case (Some p)
  with assms show ?thesis
    by (intro that[of p]) (auto simp: legalMoves_def split: if_splits)
qed

lemma getPiece_Some_onBoard: "getPiece g r c = Some p \<Longrightarrow> onBoard r c"
  by (auto simp: getPiece_def onBoard_def split: if_splits)

lemma find_hits:
  assumes "find (hitsSquare r c) ms = Some m"
  shows "m \<in> set ms" "mrow m = r" "mcol m = c"
  using assms by (auto simp: find_Some_iff hitsSquare_def)

section \<open>Attacked squares\<close>

lemma allSquares_set: "set allSquares = {(r, c). onBoard r c}"
  by (auto simp: allSquares_def onBoard_def)

lemma isSquareAttacked_iff:
  "isSquareAttacked g r c byColor \<longleftrightarrow>
    (\<exists>r' c' p. getPiece g r' c' = Some p \<and> pcolor p = byColor
       \<and> (\<exists>m \<in> set (getRawMoves g r' c' p True). mrow m = r \<and> mcol m = c))"
proof
  assume "isSquareAttacked g r c byColor"
  then show "\<exists>r' c' p. getPiece g r' c' = Some p \<and> pcolor p = byColor
       \<and> (\<exists>m \<in> set (getRawMoves g r' c' p True). mrow m = r \<and> mcol m = c)"
    by (auto simp: isSquareAttacked.simps list_ex_iff hitsSquare_def split: option.splits)
       blast
next
  assume "\<exists>r' c' p. getPiece g r' c' = Some p \<and> pcolor p = byColor
       \<and> (\<exists>m \<in> set (getRawMoves g r' c' p True). mrow m = r \<and> mcol m = c)"
  then obtain r' c' p m where h: "getPiece g r' c' = Some p" "pcolor p = byColor"
    "m \<in> set (getRawMoves g r' c' p True)" "mrow m = r" "mcol m = c" by blast
  have "(r', c') \<in> set allSquares"
    using getPiece_Some_onBoard[OF h(1)] by (simp add: allSquares_set)
  with h show "isSquareAttacked g r c byColor"
    by (auto simp: isSquareAttacked.simps list_ex_iff hitsSquare_def split: option.splits
             intro!: bexI[of _ "(r', c')"])
qed

lemma pawn_attacks_diagonal:
  assumes "getPiece g r c = Some p" "ptype p = Pawn" "dc = - 1 \<or> dc = 1"
    "onBoard (r + direction p) (c + dc)"
  shows "isSquareAttacked g (r + direction p) (c + dc) (pcolor p)"
proof -
  have "plainMove (r + direction p) (c + dc) \<in> set (pawnDiagonal g r c p True dc)"
    using assms(4) by (simp add: pawnDiagonal_def Let_def onBoard_def direction_def)
  then have "plainMove (r + direction p) (c + dc) \<in> set (getRawMoves g r c p True)"
    using assms(2,3) by (auto simp: getRawMoves.simps getPawnMoves_def)
  then show ?thesis
    using assms(1) by (subst isSquareAttacked_iff) (intro exI conjI bexI, auto)
qed

lemma pawn_diagonal_move_iff:
  assumes "ptype p = Pawn" "dc = - 1 \<or> dc = 1"
  shows "list_ex (hitsSquare (r + direction p) (c + dc)) (getRawMoves g r c p False) \<longleftrightarrow>
         onBoard (r + direction p) (c + dc) \<and>
         (enemyAt g p (r + direction p) (c + dc)
          \<or> enPassantTarget g = Some (r + direction p, c + dc))"
proof -
  have raw: "getRawMoves g r c p False =
      pawnForward g r c p @ pawnDiagonal g r c p False (- 1) @ pawnDiagonal g r c p False 1"
    using assms(1) by (simp add: getRawMoves.simps getPawnMoves_def)
  have fw: "\<not> list_ex (hitsSquare (r + direction p) (c + dc)) (pawnForward g r c p)"
    using assms(2) pawnForward_mem(1)[of _ g r c p]
    by (auto simp: list_ex_iff hitsSquare_def)
  have other: "\<not> list_ex (hitsSquare (r + direction p) (c + dc)) (pawnDiagonal g r c p False (- dc))"
    using assms(2) pawnDiagonal_mem(2)[of _ g r c p False "- dc"]
    by (auto simp: list_ex_iff hitsSquare_def)
  have same: "list_ex (hitsSquare (r + direction p) (c + dc)) (pawnDiagonal g r c p False dc) \<longleftrightarrow>
         onBoard (r + direction p) (c + dc) \<and>
         (enemyAt g p (r + direction p) (c + dc)
          \<or> enPassantTarget g = Some (r + direction p, c + dc))"
    by (auto simp: pawnDiagonal_def Let_def onBoard_def direction_def enemyAt_def hitsSquare_def
             split: option.splits)
  show ?thesis
    using assms(2) fw other same by (auto simp: raw)
qed

lemma pawn_diagonal_move_capture:
  assumes "ptype p = Pawn" "dc = - 1 \<or> dc = 1" "m \<in> set (getRawMoves g r c p False)"
    "mcol m = c + dc"
  shows "capture m \<and> mrow m = r + direction p"
proof -
  from assms(3) assms(1) have "m \<in> set (getPawnMoves g r c p False)"
    by (simp add: getRawMoves.simps)
  from getPawnMoves_mem[OF this] show ?thesis
  proof (elim disjE conjE)
    assume "m \<in> set (pawnForward g r c p)"
    from pawnForward_mem(1)[OF this] assms(2,4) show ?thesis by auto
  next
    assume "m \<in> set (pawnDiagonal g r c p False (- 1))"
    then show ?thesis
      by (auto simp: pawnDiagonal_def Let_def direction_def split: if_splits option.splits)
  next
    assume "m \<in> set (pawnDiagonal g r c p False 1)"
    then show ?thesis
      by (auto simp: pawnDiagonal_def Let_def direction_def split: if_splits option.splits)
  qed
qed

text \<open>No legal move at all, said with \<open>getValidMoves\<close> square by square.\<close>

lemma no_valid_moves_iff:
  "fst (getAllValidMoves g (currentTurn g)) = [] \<longleftrightarrow> (\<forall>row col. fst (getValidMoves g row col) = [])"
proof -
  have can: "\<And>s. canMove g s \<longleftrightarrow> legalMoves g (fst s) (snd s) \<noteq> []"
    by (auto simp: canMove_def legalMoves_def split: option.splits)
  have out: "\<And>r c. (r, c) \<notin> set allSquares \<Longrightarrow> legalMoves g r c = []"
    by (auto simp: allSquares_set legalMoves_def getPiece_def onBoard_def)
  have "(\<forall>s\<in>set allSquares. legalMoves g (fst s) (snd s) = [])
        \<longleftrightarrow> (\<forall>row col. legalMoves g row col = [])"
  proof
    assume a: "\<forall>s\<in>set allSquares. legalMoves g (fst s) (snd s) = []"
    show "\<forall>row col. legalMoves g row col = []"
    proof (intro allI)
      fix row col
      show "legalMoves g row col = []"
      proof (cases "(row, col) \<in> set allSquares")
        case True
        then show ?thesis using a by fastforce
      next
        case False
        then show ?thesis by (rule out)
      qed
    qed
  next
    assume "\<forall>row col. legalMoves g row col = []"
    then show "\<forall>s\<in>set allSquares. legalMoves g (fst s) (snd s) = []" by simp
  qed
  then show ?thesis unfolding no_moves_iff
    by (simp add: list_ex_iff can getValidMoves_eq)
qed

section \<open>The position after a legal move\<close>

lemma legal_found:
  assumes "validMoves g = fst (getValidMoves g fromRow fromCol)"
    and "getPiece g fromRow fromCol = Some piece"
    and "find (hitsSquare toRow toCol) (validMoves g) = Some mi"
  shows "mi \<in> set (getRawMoves g fromRow fromCol piece False)"
    "legalAfter g fromRow fromCol piece mi" "mrow mi = toRow" "mcol mi = toCol"
    "pcolor piece = currentTurn g" "onBoard toRow toCol" "toRow \<noteq> fromRow \<or> toCol \<noteq> fromCol"
    "onBoard fromRow fromCol"
proof -
  have m: "mi \<in> set (legalMoves g fromRow fromCol)"
    using find_hits(1)[OF assms(3)] assms(1) by (simp add: getValidMoves_eq)
  from m assms(2) show raw: "mi \<in> set (getRawMoves g fromRow fromCol piece False)"
    and "legalAfter g fromRow fromCol piece mi" and "pcolor piece = currentTurn g"
    by (auto elim!: legalMoves_raw)
  show rc: "mrow mi = toRow" "mcol mi = toCol"
    using find_hits(2,3)[OF assms(3)] by simp_all
  show ob: "onBoard fromRow fromCol" using assms(2) by (rule getPiece_Some_onBoard)
  show "onBoard toRow toCol" using rawMove_onBoard[OF raw ob] rc by simp
  show "toRow \<noteq> fromRow \<or> toCol \<noteq> fromCol"
    using rawMove_notOrigin[OF raw assms(2)] rc by simp
qed

lemma getPiece_setPiece_onBoard:
  "wfBoard (board g) \<Longrightarrow> getPiece (setPiece g r c p) r' c' =
     (if onBoard r c \<and> r' = r \<and> c' = c then p else getPiece g r' c')"
  by (simp add: getPiece_setPiece onBoard_def)

lemma wfBoard_afterCapture [simp]:
  "wfBoard (board g) \<Longrightarrow> wfBoard (board (afterCapture g piece mi toRow toCol))"
  by (simp add: afterCapture_def Let_def split: option.splits)

lemma wfBoard_castleRook:
  "wfBoard (board g) \<Longrightarrow> castleRook g r a b f = Inr g' \<Longrightarrow> wfBoard (board g')"
  by (auto simp: castleRook_def split: option.splits)

lemma wfBoard_afterCastling:
  "wfBoard (board g) \<Longrightarrow> afterCastling g mi r = Inr g' \<Longrightarrow> wfBoard (board g')"
  by (auto simp: afterCastling_def split: option.splits castle_side.splits
           dest: wfBoard_castleRook)

lemma wfBoard_movePiece [simp]:
  "wfBoard (board g) \<Longrightarrow> wfBoard (board (movePiece g p mi a b c d pr))"
  by (simp add: movePiece_def Let_def split: option.splits)

lemma getPiece_afterCapture:
  assumes "wfBoard (board g)"
  shows "getPiece (afterCapture g piece mi toRow toCol) r c =
    (if enPassant mi \<and> onBoard (capturedRowFor piece toRow) toCol
        \<and> r = capturedRowFor piece toRow \<and> c = toCol
     then None else getPiece g r c)"
  using assms
  by (simp add: afterCapture_def Let_def getPiece_setPiece_onBoard split: option.splits)

lemma getPiece_castleRook:
  assumes "wfBoard (board g)" "castleRook g r a b f = Inr g'"
  shows "getPiece g' r' c' =
    (if r' = r \<and> c' = b \<and> onBoard r b then map_option (\<lambda>p. p\<lparr>hasMoved := f\<rparr>) (getPiece g r a)
     else if r' = r \<and> c' = a \<and> onBoard r a then None
     else getPiece g r' c')"
  using assms
  by (cases "getPiece g r a") (auto simp: castleRook_def getPiece_setPiece_onBoard)

lemma getPiece_movePiece:
  assumes "wfBoard (board g)" "onBoard toRow toCol" "toRow \<noteq> fromRow \<or> toCol \<noteq> fromCol"
  shows "getPiece (movePiece g piece mi fromRow fromCol toRow toCol promo) r c =
    (if r = toRow \<and> c = toCol then Some (placedPiece piece mi promo)
     else if r = fromRow \<and> c = fromCol \<and> onBoard fromRow fromCol then None
     else getPiece g r c)"
  using assms
  by (cases promo) (auto simp: movePiece_def placedPiece_def Let_def getPiece_setPiece_onBoard)

lemma legal_move_castles:
  assumes "validMoves g = fst (getValidMoves g fromRow fromCol)"
    and "getPiece g fromRow fromCol = Some piece"
    and "find (hitsSquare toRow toCol) (validMoves g) = Some mi"
  shows "\<exists>g3. afterCastling (afterCapture g piece mi toRow toCol) mi fromRow = Inr g3"
proof (cases "castling mi")
  case None
  then show ?thesis by (simp add: afterCastling_def)
next
  case (Some side)
  note lf = legal_found[OF assms]
  from Some have cm: "mi \<in> set (getCastlingMoves g fromRow fromCol piece)"
    using rawMove_castling(5)[OF lf(1)] by simp
  from getCastlingMoves_mem[OF cm] Some
  have ep: "\<not> enPassant mi"
    and rook: "side = Kingside \<longrightarrow> getPiece g fromRow 7 \<noteq> None"
      "side = Queenside \<longrightarrow> getPiece g fromRow 0 \<noteq> None"
    by (auto split: option.splits)
  have same: "getPiece (afterCapture g piece mi toRow toCol) = getPiece g"
    using ep by (intro ext) (simp add: afterCapture_def Let_def split: option.splits)
  show ?thesis
    using Some rook
    by (cases side) (auto simp: afterCastling_def castleRook_def same split: option.splits)
qed

lemma makeMove_legal:
  assumes "validMoves g = fst (getValidMoves g fromRow fromCol)"
    and "getPiece g fromRow fromCol = Some piece"
    and "find (hitsSquare toRow toCol) (validMoves g) = Some mi"
  obtains g3 where
    "afterCastling (afterCapture g piece mi toRow toCol) mi fromRow = Inr g3"
    "makeMove g fromRow fromCol toRow toCol promo =
       (Inr True, checkGameState (beforeCheck g3 piece mi
         (historyEntry g piece mi fromRow fromCol toRow toCol promo)
         fromRow fromCol toRow toCol promo))"
proof -
  from legal_move_castles[OF assms] obtain g3 where
    g3: "afterCastling (afterCapture g piece mi toRow toCol) mi fromRow = Inr g3" by blast
  show ?thesis
    by (rule that[OF g3]) (simp add: makeMove_def assms(2,3) g3 Let_def)
qed

lemma makeMove_legal_destination:
  assumes "wfBoard (board g)"
    and "validMoves g = fst (getValidMoves g fromRow fromCol)"
    and "getPiece g fromRow fromCol = Some piece"
    and "find (hitsSquare toRow toCol) (validMoves g) = Some mi"
  shows "fst (makeMove g fromRow fromCol toRow toCol promo) = Inr True"
    and "getPiece (snd (makeMove g fromRow fromCol toRow toCol promo)) toRow toCol
           = Some (placedPiece piece mi promo)"
    and "getPiece (snd (makeMove g fromRow fromCol toRow toCol promo)) fromRow fromCol = None"
proof -
  note lf = legal_found[OF assms(2-4)]
  obtain g3 where
    g3: "afterCastling (afterCapture g piece mi toRow toCol) mi fromRow = Inr g3" and
    mm: "makeMove g fromRow fromCol toRow toCol promo =
       (Inr True, checkGameState (beforeCheck g3 piece mi
         (historyEntry g piece mi fromRow fromCol toRow toCol promo)
         fromRow fromCol toRow toCol promo))"
    by (rule makeMove_legal[OF assms(2-4)])
  have wf3: "wfBoard (board g3)"
    using wfBoard_afterCastling[OF _ g3] assms(1) by simp
  show "fst (makeMove g fromRow fromCol toRow toCol promo) = Inr True" by (simp add: mm)
  show "getPiece (snd (makeMove g fromRow fromCol toRow toCol promo)) toRow toCol
           = Some (placedPiece piece mi promo)"
    by (simp add: mm getPiece_movePiece[OF wf3 lf(6,7)])
  show "getPiece (snd (makeMove g fromRow fromCol toRow toCol promo)) fromRow fromCol = None"
    using lf(7,8) by (auto simp: mm getPiece_movePiece[OF wf3 lf(6,7)])
qed

section \<open>En passant: the target and the capture\<close>

lemma legalMove_enPassant:
  assumes "m \<in> set (fst (getValidMoves g r c))" "enPassant m"
  shows "enPassantTarget g = Some (mrow m, mcol m)
         \<and> (\<exists>p. getPiece g r c = Some p \<and> ptype p = Pawn \<and> mrow m = r + direction p
                \<and> (mcol m = c - 1 \<or> mcol m = c + 1))"
proof -
  from assms(1) have "m \<in> set (legalMoves g r c)" by (simp add: getValidMoves_eq)
  then obtain p where p: "getPiece g r c = Some p" "m \<in> set (getRawMoves g r c p False)"
    by (rule legalMoves_raw)
  from rawMove_enPassant[OF p(2) assms(2)] p(1) show ?thesis by simp
qed

lemma map_option_copyPiece [simp]: "map_option copyPiece x = x"
  by (cases x) simp_all

lemma capturedRowFor_direction: "capturedRowFor p (r + direction p) = r"
  "capturedRowFor p (r + 2 * direction p) = r + direction p"
  by (simp_all add: capturedRowFor_def direction_def)

lemma makeMove_legal_enPassantTarget:
  assumes "validMoves g = fst (getValidMoves g fromRow fromCol)"
    and "getPiece g fromRow fromCol = Some piece"
    and "find (hitsSquare toRow toCol) (validMoves g) = Some mi"
  shows "enPassantTarget (snd (makeMove g fromRow fromCol toRow toCol promo))
           = (if twoStep mi then Some (fromRow + direction piece, fromCol) else None)"
    and "twoStep mi \<Longrightarrow> ptype piece = Pawn \<and> toRow = fromRow + 2 * direction piece
           \<and> toCol = fromCol \<and> fromRow = startRow piece"
proof -
  note lf = legal_found[OF assms]
  obtain g3 where
    mm: "makeMove g fromRow fromCol toRow toCol promo =
       (Inr True, checkGameState (beforeCheck g3 piece mi
         (historyEntry g piece mi fromRow fromCol toRow toCol promo)
         fromRow fromCol toRow toCol promo))"
    by (rule makeMove_legal[OF assms])
  have ts: "twoStep mi \<Longrightarrow> ptype piece = Pawn \<and> toRow = fromRow + 2 * direction piece
           \<and> toCol = fromCol \<and> fromRow = startRow piece"
    using rawMove_twoStep(1,7,8,9)[OF lf(1)] lf(3,4) by simp
  then show "twoStep mi \<Longrightarrow> ptype piece = Pawn \<and> toRow = fromRow + 2 * direction piece
           \<and> toCol = fromCol \<and> fromRow = startRow piece" .
  show "enPassantTarget (snd (makeMove g fromRow fromCol toRow toCol promo))
           = (if twoStep mi then Some (fromRow + direction piece, fromCol) else None)"
    using ts by (auto simp: mm capturedRowFor_direction)
qed

lemma makeMove_legal_enPassant_capture:
  assumes "wfBoard (board g)"
    and "validMoves g = fst (getValidMoves g fromRow fromCol)"
    and "getPiece g fromRow fromCol = Some piece"
    and "find (hitsSquare toRow toCol) (validMoves g) = Some mi"
    and "enPassant mi"
  shows "getPiece (snd (makeMove g fromRow fromCol toRow toCol promo)) fromRow toCol = None"
    and "getPiece (snd (makeMove g fromRow fromCol toRow toCol promo)) toRow toCol
           = Some (piece\<lparr>hasMoved := True\<rparr>)"
    and "toRow = fromRow + direction piece" and "toCol = fromCol - 1 \<or> toCol = fromCol + 1"
    and "ptype piece = Pawn" and "enPassantTarget g = Some (toRow, toCol)"
    and "captured (last (moveHistory (snd (makeMove g fromRow fromCol toRow toCol promo))))
           = getPiece g fromRow toCol"
proof -
  note lf = legal_found[OF assms(2-4)]
  note ep = rawMove_enPassant[OF lf(1) assms(5)]
  show row: "toRow = fromRow + direction piece" using ep(7) lf(3) by simp
  show col: "toCol = fromCol - 1 \<or> toCol = fromCol + 1" using ep(8) lf(4) by simp
  show "ptype piece = Pawn" by (rule ep(1))
  show "enPassantTarget g = Some (toRow, toCol)" using ep(3) lf(3,4) by simp
  have cr: "capturedRowFor piece toRow = fromRow"
    using row by (simp add: capturedRowFor_direction)
  have g3: "afterCastling (afterCapture g piece mi toRow toCol) mi fromRow
              = Inr (afterCapture g piece mi toRow toCol)"
    using ep(5) by (simp add: afterCastling_def)
  have mm: "makeMove g fromRow fromCol toRow toCol promo =
       (Inr True, checkGameState (beforeCheck (afterCapture g piece mi toRow toCol) piece mi
         (historyEntry g piece mi fromRow fromCol toRow toCol promo)
         fromRow fromCol toRow toCol promo))"
    by (simp add: makeMove_def assms(3,4) g3 Let_def)
  have wf3: "wfBoard (board (afterCapture g piece mi toRow toCol))"
    using assms(1) by simp
  have ob: "onBoard fromRow toCol"
    using lf(6,8) by (simp add: onBoard_def)
  have ne: "fromRow \<noteq> toRow" using row by (simp add: direction_def)
  show "getPiece (snd (makeMove g fromRow fromCol toRow toCol promo)) fromRow toCol = None"
    using ne ob assms(5)
    by (simp add: mm getPiece_movePiece[OF wf3 lf(6,7)] getPiece_afterCapture[OF assms(1)] cr)
  have "placedPiece piece mi promo = piece\<lparr>hasMoved := True\<rparr>"
    using ep(6) by (simp add: placedPiece_def split: option.splits)
  then show "getPiece (snd (makeMove g fromRow fromCol toRow toCol promo)) toRow toCol
           = Some (piece\<lparr>hasMoved := True\<rparr>)"
    by (simp add: mm getPiece_movePiece[OF wf3 lf(6,7)])
  show "captured (last (moveHistory (snd (makeMove g fromRow fromCol toRow toCol promo))))
           = getPiece g fromRow toCol"
    using assms(5) by (simp add: mm historyEntry_def capturedBy_def cr option.map_ident)
qed

section \<open>Castling: conditions and the \<open>hasMoved\<close> flag\<close>

lemma legalMove_castling:
  assumes "m \<in> set (fst (getValidMoves g r c))" "castling m = Some side"
  shows "\<exists>king. getPiece g r c = Some king \<and> ptype king = King \<and> pcolor king = currentTurn g
      \<and> \<not> hasMoved king \<and> \<not> isInCheck g (pcolor king) \<and> mrow m = r
      \<and> (side = Kingside \<longrightarrow> mcol m = 6
            \<and> (\<exists>rook. getPiece g r 7 = Some rook \<and> ptype rook = Rook \<and> \<not> hasMoved rook)
            \<and> getPiece g r 5 = None \<and> getPiece g r 6 = None
            \<and> \<not> isSquareAttacked g r 5 (opponent (pcolor king))
            \<and> \<not> isSquareAttacked g r 6 (opponent (pcolor king)))
      \<and> (side = Queenside \<longrightarrow> mcol m = 2
            \<and> (\<exists>rook. getPiece g r 0 = Some rook \<and> ptype rook = Rook \<and> \<not> hasMoved rook)
            \<and> getPiece g r 1 = None \<and> getPiece g r 2 = None \<and> getPiece g r 3 = None
            \<and> \<not> isSquareAttacked g r 2 (opponent (pcolor king))
            \<and> \<not> isSquareAttacked g r 3 (opponent (pcolor king)))"
proof -
  from assms(1) have "m \<in> set (legalMoves g r c)" by (simp add: getValidMoves_eq)
  then obtain p where p: "getPiece g r c = Some p" "pcolor p = currentTurn g"
    "m \<in> set (getRawMoves g r c p False)"
    by (rule legalMoves_raw)
  from assms(2) have ne: "castling m \<noteq> None" by simp
  note k = rawMove_castling[OF p(3) ne]
  note cm = getCastlingMoves_mem[OF k(5)]
  have ks: "side = Kingside \<longrightarrow> mcol m = 6
            \<and> (\<exists>rook. getPiece g r 7 = Some rook \<and> ptype rook = Rook \<and> \<not> hasMoved rook)
            \<and> getPiece g r 5 = None \<and> getPiece g r 6 = None
            \<and> \<not> isSquareAttacked g r 5 (opponent (pcolor p))
            \<and> \<not> isSquareAttacked g r 6 (opponent (pcolor p))"
    using cm(8) assms(2) by (cases "getPiece g r 7") auto
  have qs: "side = Queenside \<longrightarrow> mcol m = 2
            \<and> (\<exists>rook. getPiece g r 0 = Some rook \<and> ptype rook = Rook \<and> \<not> hasMoved rook)
            \<and> getPiece g r 1 = None \<and> getPiece g r 2 = None \<and> getPiece g r 3 = None
            \<and> \<not> isSquareAttacked g r 2 (opponent (pcolor p))
            \<and> \<not> isSquareAttacked g r 3 (opponent (pcolor p))"
    using cm(9) assms(2) by (cases "getPiece g r 0") auto
  show ?thesis
    using p(1,2) k(1,3,4) cm(1) ks qs by (intro exI[of _ p]) simp
qed

lemma unmoved_setPiece:
  assumes "wfBoard (board g)" "unmoved (setPiece g r c p) r' c'"
    "case p of None \<Rightarrow> True | Some q \<Rightarrow> hasMoved q"
  shows "unmoved g r' c'"
  using assms
  by (auto simp: unmoved_def getPiece_setPiece_onBoard split: option.splits if_splits)

lemma unmoved_pushCaptured [simp]: "unmoved (pushCaptured g c p) = unmoved g"
  by (intro ext) (simp add: unmoved_def)

lemma unmoved_afterCapture:
  assumes "wfBoard (board g)" "unmoved (afterCapture g piece mi toRow toCol) r c"
  shows "unmoved g r c"
  using assms
  by (auto simp: afterCapture_def Let_def split: option.splits if_splits
           dest: unmoved_setPiece)

lemma unmoved_castleRook:
  assumes "wfBoard (board g)" "castleRook g a b d True = Inr g'" "unmoved g' r c"
  shows "unmoved g r c"
proof -
  from assms(2) obtain rook where rook: "getPiece g a b = Some rook"
    and g': "g' = setPiece (setPiece g a b None) a d (Some (rook\<lparr>hasMoved := True\<rparr>))"
    by (auto simp: castleRook_def split: option.splits)
  have wf1: "wfBoard (board (setPiece g a b None))" using assms(1) by simp
  have "unmoved (setPiece g a b None) r c"
    using unmoved_setPiece[OF wf1 assms(3)[unfolded g']] by simp
  from unmoved_setPiece[OF assms(1) this] show ?thesis by simp
qed

lemma unmoved_afterCastling:
  assumes "wfBoard (board g)" "afterCastling g mi a = Inr g'" "unmoved g' r c"
  shows "unmoved g r c"
  using assms
  by (auto simp: afterCastling_def split: option.splits castle_side.splits
           dest: unmoved_castleRook)

lemma unmoved_movePiece:
  assumes "wfBoard (board g)" "unmoved (movePiece g piece mi a b c d promo) r' c'"
  shows "unmoved g r' c'"
proof -
  let ?g0 = "setPiece g c d (Some (piece\<lparr>hasMoved := True\<rparr>))"
  let ?g1 = "setPiece ?g0 a b None"
  have wf0: "wfBoard (board ?g0)" using assms(1) by simp
  have wf1: "wfBoard (board ?g1)" using wf0 by simp
  have step: "unmoved g r c" if u: "unmoved ?g1 r c" for r c
  proof -
    from unmoved_setPiece[OF wf0 u] have "unmoved ?g0 r c" by simp
    from unmoved_setPiece[OF assms(1) this] show ?thesis by simp
  qed
  show ?thesis
  proof (cases "\<exists>t. promo = Some t \<and> promotion mi")
    case False
    then have "movePiece g piece mi a b c d promo = ?g1"
      by (cases promo) (simp_all add: movePiece_def Let_def)
    with assms(2) step show ?thesis by simp
  next
    case True
    then obtain t where t: "promo = Some t" "promotion mi" by blast
    then have "movePiece g piece mi a b c d promo
        = setPiece ?g1 c d (Some ((createPiece t (pcolor piece))\<lparr>hasMoved := True\<rparr>))"
      by (simp add: movePiece_def Let_def)
    with assms(2) have "unmoved (setPiece ?g1 c d
        (Some ((createPiece t (pcolor piece))\<lparr>hasMoved := True\<rparr>))) r' c'" by simp
    from unmoved_setPiece[OF wf1 this] have "unmoved ?g1 r' c'" by simp
    then show ?thesis by (rule step)
  qed
qed

lemma unmoved_checkGameState [simp]: "unmoved (checkGameState g) = unmoved g"
  by (intro ext) (simp add: unmoved_def)

lemma unmoved_beforeCheck [simp]:
  "unmoved (beforeCheck g p mi mv a b c d pr) = unmoved (movePiece g p mi a b c d pr)"
  by (intro ext) (simp add: unmoved_def)

lemma makeMove_result:
  obtains "makeMove g fromRow fromCol toRow toCol promo = (Inr False, g)"
  | piece mi where "getPiece g fromRow fromCol = Some piece"
      "find (hitsSquare toRow toCol) (validMoves g) = Some mi"
      "makeMove g fromRow fromCol toRow toCol promo
         = (Inl TypeError, afterCapture g piece mi toRow toCol)"
  | piece mi g3 where "getPiece g fromRow fromCol = Some piece"
      "find (hitsSquare toRow toCol) (validMoves g) = Some mi"
      "afterCastling (afterCapture g piece mi toRow toCol) mi fromRow = Inr g3"
      "makeMove g fromRow fromCol toRow toCol promo =
         (Inr True, checkGameState (beforeCheck g3 piece mi
           (historyEntry g piece mi fromRow fromCol toRow toCol promo)
           fromRow fromCol toRow toCol promo))"
proof (cases "getPiece g fromRow fromCol")
  case None
  then show ?thesis by (intro that(1)) (simp add: makeMove_def)
next
  case (Some piece)
  show ?thesis
  proof (cases "find (hitsSquare toRow toCol) (validMoves g)")
    case None
    then show ?thesis by (intro that(1)) (simp add: makeMove_def Some)
  next
    case mi: (Some mi)
    show ?thesis
    proof (cases "afterCastling (afterCapture g piece mi toRow toCol) mi fromRow")
      case (Inl e)
      then show ?thesis
        by (intro that(2)[OF Some mi]) (cases e, simp add: makeMove_def Some mi Let_def)
    next
      case (Inr g3)
      then show ?thesis
        by (intro that(3)[OF Some mi Inr]) (simp add: makeMove_def Some mi Let_def)
    qed
  qed
qed

lemma wfBoard_makeMove:
  assumes "wfBoard (board g)"
  shows "wfBoard (board (snd (makeMove g fromRow fromCol toRow toCol promo)))"
proof (cases rule: makeMove_result[of g fromRow fromCol toRow toCol promo])
  case 1
  with assms show ?thesis by simp
next
  case (2 piece mi)
  with assms show ?thesis by simp
next
  case (3 piece mi g3)
  have "wfBoard (board g3)" using wfBoard_afterCastling[OF _ 3(3)] assms by simp
  then show ?thesis by (simp add: 3(4))
qed

lemma unmoved_makeMove:
  assumes "wfBoard (board g)" "unmoved (snd (makeMove g fromRow fromCol toRow toCol promo)) r c"
  shows "unmoved g r c"
proof (cases rule: makeMove_result[of g fromRow fromCol toRow toCol promo])
  case 1
  with assms show ?thesis by simp
next
  case (2 piece mi)
  with assms show ?thesis by (auto dest: unmoved_afterCapture)
next
  case (3 piece mi g3)
  have wf2: "wfBoard (board (afterCapture g piece mi toRow toCol))" using assms(1) by simp
  have wf3: "wfBoard (board g3)" using wfBoard_afterCastling[OF wf2 3(3)] .
  from assms(2) have "unmoved (movePiece g3 piece mi fromRow fromCol toRow toCol promo) r c"
    by (simp add: 3(4))
  from unmoved_movePiece[OF wf3 this] have "unmoved g3 r c" .
  from unmoved_afterCastling[OF wf2 3(3) this]
  have "unmoved (afterCapture g piece mi toRow toCol) r c" .
  from unmoved_afterCapture[OF assms(1) this] show ?thesis .
qed

lemma unmoved_validMoves [simp]: "unmoved (g\<lparr>validMoves := vm\<rparr>) = unmoved g"
  by (intro ext) (simp add: unmoved_def getPiece_def)

lemma playedOn_wfBoard: "playedOn g g' \<Longrightarrow> wfBoard (board g) \<Longrightarrow> wfBoard (board g')"
proof (induction rule: playedOn.induct)
  case (playedOn_refl g)
  then show ?case .
next
  case (playedOn_step g g1 vm fromRow fromCol toRow toCol promo)
  then have "wfBoard (board (g1\<lparr>validMoves := vm\<rparr>))" by simp
  then show ?case by (rule wfBoard_makeMove)
qed

lemma playedOn_unmoved:
  "playedOn g g' \<Longrightarrow> wfBoard (board g) \<Longrightarrow> unmoved g' r c \<Longrightarrow> unmoved g r c"
proof (induction rule: playedOn.induct)
  case (playedOn_refl g)
  then show ?case by simp
next
  case (playedOn_step g g1 vm fromRow fromCol toRow toCol promo)
  have "wfBoard (board (g1\<lparr>validMoves := vm\<rparr>))"
    using playedOn_wfBoard[OF playedOn_step.hyps playedOn_step.prems(1)] by simp
  from unmoved_makeMove[OF this playedOn_step.prems(2)]
  have "unmoved g1 r c" by simp
  with playedOn_step show ?case by simp
qed

section \<open>The king after a legal move\<close>

lemma cellAlike_refl [simp]: "cellAlike c a a"
  by (simp add: cellAlike_def split: option.splits)

lemma cellAlike_hasMoved [simp]: "cellAlike c a (map_option (\<lambda>p. p\<lparr>hasMoved := f\<rparr>) a)"
  by (simp add: cellAlike_def split: option.splits)

lemma cellAlike_color: "cellAlike c a b \<Longrightarrow> map_option pcolor a = map_option pcolor b"
  by (auto simp: cellAlike_def split: option.splits)

lemma colors_stepMove:
  assumes "\<And>r c. map_option pcolor (getPiece g r c) = map_option pcolor (getPiece g' r c)"
    and "pcolor p = pcolor p'"
  shows "stepMove g r c p d = stepMove g' r c p' d"
proof -
  have "map_option pcolor (getPiece g (r + fst d) (c + snd d))
        = map_option pcolor (getPiece g' (r + fst d) (c + snd d))"
    by (rule assms(1))
  then show ?thesis using assms(2)
    by (cases "getPiece g (r + fst d) (c + snd d)"; cases "getPiece g' (r + fst d) (c + snd d)")
       (simp_all add: stepMove_def Let_def)
qed

lemma colors_slideRay:
  assumes "\<And>r c. map_option pcolor (getPiece g r c) = map_option pcolor (getPiece g' r c)"
    and "pcolor p = pcolor p'"
  shows "slideRay g p r c dr dc = slideRay g' p' r c dr dc"
  using assms
proof (induction g p r c dr dc rule: slideRay.induct)
  case (1 g p r c dr dc)
  have e: "map_option pcolor (getPiece g r c) = map_option pcolor (getPiece g' r c)"
    by (rule "1.prems"(1))
  show ?case
  proof (cases "r \<ge> 0 \<and> r \<le> 7 \<and> c \<ge> 0 \<and> c \<le> 7 \<and> (dr \<noteq> 0 \<or> dc \<noteq> 0)")
    case False
    then show ?thesis by (subst slideRay.simps, subst (2) slideRay.simps) auto
  next
    case True
    show ?thesis
    proof (cases "getPiece g r c")
      case None
      then have n': "getPiece g' r c = None" using e by simp
      have "slideRay g p (r + dr) (c + dc) dr dc = slideRay g' p' (r + dr) (c + dc) dr dc"
        using True None "1.prems" by (intro "1.IH") simp_all
      then show ?thesis using True None n'
        by (subst slideRay.simps, subst (2) slideRay.simps) simp
    next
      case (Some t)
      then obtain t' where s': "getPiece g' r c = Some t'" "pcolor t' = pcolor t"
        using e by (cases "getPiece g' r c") auto
      show ?thesis using True Some s' "1.prems"(2)
        by (subst slideRay.simps, subst (2) slideRay.simps) simp
    qed
  qed
qed

lemma colors_attackMoves:
  assumes "\<And>r c. map_option pcolor (getPiece g r c) = map_option pcolor (getPiece g' r c)"
    and "pcolor p = pcolor p'" "ptype p = ptype p'"
  shows "getRawMoves g r c p True = getRawMoves g' r c p' True"
proof -
  have st: "stepMove g r c p = stepMove g' r c p'"
    by (intro ext colors_stepMove assms(1,2))
  have sl: "\<And>ds. getSlidingMoves g r c p ds = getSlidingMoves g' r c p' ds"
    using colors_slideRay[of g g' p p', OF assms(1,2)] by (simp add: getSlidingMoves_def)
  have pw: "getPawnMoves g r c p True = getPawnMoves g' r c p' True"
    using assms(2) by (simp add: getPawnMoves_def pawnDiagonal_def Let_def)
  show ?thesis
    using assms(3)
    by (cases "ptype p")
       (simp_all add: getRawMoves.simps getKingMoves.simps getKnightMoves_def st sl pw)
qed

lemma alike_isSquareAttacked:
  assumes "\<And>r col. cellAlike c (getPiece g r col) (getPiece g' r col)" and "byColor \<noteq> c"
  shows "isSquareAttacked g r col byColor = isSquareAttacked g' r col byColor"
proof -
  have colors: "\<And>r c. map_option pcolor (getPiece g r c) = map_option pcolor (getPiece g' r c)"
    by (rule cellAlike_color) (rule assms(1))
  have "(\<lambda>s. case getPiece g (fst s) (snd s) of
                   None \<Rightarrow> False
                 | Some p \<Rightarrow> pcolor p = byColor
                     \<and> list_ex (hitsSquare r col) (getRawMoves g (fst s) (snd s) p True))
      = (\<lambda>s. case getPiece g' (fst s) (snd s) of
                   None \<Rightarrow> False
                 | Some p \<Rightarrow> pcolor p = byColor
                     \<and> list_ex (hitsSquare r col) (getRawMoves g' (fst s) (snd s) p True))"
  proof (intro ext)
    fix s
    have a: "cellAlike c (getPiece g (fst s) (snd s)) (getPiece g' (fst s) (snd s))"
      by (rule assms(1))
    show "(case getPiece g (fst s) (snd s) of
                   None \<Rightarrow> False
                 | Some p \<Rightarrow> pcolor p = byColor
                     \<and> list_ex (hitsSquare r col) (getRawMoves g (fst s) (snd s) p True))
      = (case getPiece g' (fst s) (snd s) of
                   None \<Rightarrow> False
                 | Some p \<Rightarrow> pcolor p = byColor
                     \<and> list_ex (hitsSquare r col) (getRawMoves g' (fst s) (snd s) p True))"
    proof (cases "getPiece g (fst s) (snd s)")
      case None
      then show ?thesis using a by (simp add: cellAlike_def)
    next
      case (Some p)
      then obtain q where q: "getPiece g' (fst s) (snd s) = Some q" "pcolor q = pcolor p"
        "pcolor p \<noteq> c \<longrightarrow> ptype q = ptype p"
        using a by (cases "getPiece g' (fst s) (snd s)") (auto simp: cellAlike_def)
      show ?thesis
      proof (cases "pcolor p = byColor")
        case True
        then have "ptype p = ptype q" using q(3) assms(2) by simp
        then have "getRawMoves g (fst s) (snd s) p True = getRawMoves g' (fst s) (snd s) q True"
          using q(2) by (intro colors_attackMoves colors) simp_all
        then show ?thesis using Some q by simp
      next
        case False
        then show ?thesis using Some q by simp
      qed
    qed
  qed
  then show ?thesis by (simp add: isSquareAttacked.simps)
qed

lemma alike_findKing:
  assumes "\<And>r col. cellAlike c (getPiece g r col) (getPiece g' r col)"
  shows "findKing g c = findKing g' c"
proof -
  have "isPieceOf g (\<lambda>p. ptype p = King \<and> pcolor p = c)
        = isPieceOf g' (\<lambda>p. ptype p = King \<and> pcolor p = c)"
  proof (intro ext)
    fix s
    have a: "cellAlike c (getPiece g (fst s) (snd s)) (getPiece g' (fst s) (snd s))"
      by (rule assms)
    then show "isPieceOf g (\<lambda>p. ptype p = King \<and> pcolor p = c) s
        = isPieceOf g' (\<lambda>p. ptype p = King \<and> pcolor p = c) s"
      by (cases "getPiece g (fst s) (snd s)"; cases "getPiece g' (fst s) (snd s)")
         (auto simp: isPieceOf_def cellAlike_def split: if_splits)
  qed
  then show ?thesis by (simp add: findKing_def)
qed

lemma alike_isInCheck:
  assumes "\<And>r col. cellAlike c (getPiece g r col) (getPiece g' r col)"
  shows "isInCheck g c = isInCheck g' c"
proof -
  have "opponent c \<noteq> c" by (simp add: opponent_def)
  then have "\<And>r col. isSquareAttacked g r col (opponent c) = isSquareAttacked g' r col (opponent c)"
    by (intro alike_isSquareAttacked[of c] assms)
  then show ?thesis
    by (simp add: isInCheck.simps alike_findKing[of c g g', OF assms] cong: option.case_cong)
qed

lemma wfBoard_relocateRook [simp]:
  "wfBoard (board g) \<Longrightarrow> wfBoard (board (relocateRook g r a b))"
  by (simp add: relocateRook_def Let_def)

lemma getPiece_relocateRook:
  assumes "wfBoard (board g)"
  shows "getPiece (relocateRook g r a b) r' c' =
    (if r' = r \<and> c' = b \<and> onBoard r b then getPiece g r a
     else if r' = r \<and> c' = a \<and> onBoard r a then None
     else getPiece g r' c')"
  using assms by (simp add: relocateRook_def Let_def getPiece_setPiece_onBoard)

lemma placedPiece_alike:
  assumes "promotion mi \<longrightarrow> ptype piece = Pawn" "promo \<noteq> Some King"
  shows "cellAlike (pcolor piece) (Some piece) (Some (placedPiece piece mi promo))"
  using assms
  by (cases promo) (auto simp: cellAlike_def placedPiece_def createPiece_def)

text \<open>
  The board \<open>makeMove\<close> leaves after a legal move and the board \<open>simulateMove\<close> tested
  differ in the \<open>hasMoved\<close> flags of the piece and the castling rook and in the type of a
  promoted pawn, which is no king.
\<close>

lemma makeMove_alike_simulateMove:
  assumes wf: "wfBoard (board g)"
    and vm: "validMoves g = fst (getValidMoves g fromRow fromCol)"
    and p: "getPiece g fromRow fromCol = Some piece"
    and f: "find (hitsSquare toRow toCol) (validMoves g) = Some mi"
    and promo: "promo \<noteq> Some King"
  shows "cellAlike (pcolor piece)
           (getPiece (simulateMove g fromRow fromCol toRow toCol (Some mi)) r col)
           (getPiece (snd (makeMove g fromRow fromCol toRow toCol promo)) r col)"
proof -
  note lf = legal_found[OF vm p f]
  obtain g3 where
    g3: "afterCastling (afterCapture g piece mi toRow toCol) mi fromRow = Inr g3" and
    mm: "makeMove g fromRow fromCol toRow toCol promo =
       (Inr True, checkGameState (beforeCheck g3 piece mi
         (historyEntry g piece mi fromRow fromCol toRow toCol promo)
         fromRow fromCol toRow toCol promo))"
    by (rule makeMove_legal[OF vm p f])
  define s1 where "s1 = (if enPassant mi
      then setPiece g (if pcolor piece = White then toRow + 1 else toRow - 1) toCol None else g)"
  define s2 where "s2 = (case castling mi of
      None \<Rightarrow> s1
    | Some Kingside \<Rightarrow> relocateRook s1 fromRow 7 5
    | Some Queenside \<Rightarrow> relocateRook s1 fromRow 0 3)"
  define m1 where "m1 = afterCapture g piece mi toRow toCol"
  have sim: "simulateMove g fromRow fromCol toRow toCol (Some mi)
               = setPiece (setPiece s2 toRow toCol (Some piece)) fromRow fromCol None"
  proof (cases "castling mi")
    case None
    then show ?thesis
      by (cases "enPassant mi") (simp_all add: simulateMove_def Let_def s2_def s1_def p)
  next
    case (Some side)
    then show ?thesis
      by (cases side; cases "enPassant mi")
         (simp_all add: simulateMove_def Let_def s2_def s1_def p)
  qed
  have wf1: "wfBoard (board s1)" using wf by (simp add: s1_def)
  have wfm: "wfBoard (board m1)" using wf by (simp add: m1_def)
  have wf2: "wfBoard (board s2)"
    using wf1 by (simp add: s2_def split: option.splits castle_side.splits)
  have wf3: "wfBoard (board g3)"
    using wfBoard_afterCastling[OF _ g3] wf by simp
  have e1: "getPiece s1 = getPiece m1"
    using wf
    by (intro ext)
       (simp add: s1_def m1_def getPiece_afterCapture getPiece_setPiece_onBoard
          capturedRowFor_def)
  have a2: "cellAlike (pcolor piece) (getPiece s2 r col) (getPiece g3 r col)"
  proof (cases "castling mi")
    case None
    then have "g3 = m1" using g3 by (simp add: afterCastling_def m1_def)
    then show ?thesis using None by (simp add: s2_def e1)
  next
    case (Some side)
    show ?thesis
    proof (cases side)
      case Kingside
      then have c: "castleRook m1 fromRow 7 5 True = Inr g3"
        using g3 Some by (simp add: afterCastling_def m1_def)
      have s: "s2 = relocateRook s1 fromRow 7 5" using Some Kingside by (simp add: s2_def)
      show ?thesis
        unfolding s getPiece_relocateRook[OF wf1] getPiece_castleRook[OF wfm c] e1 by simp
    next
      case Queenside
      then have c: "castleRook m1 fromRow 0 3 True = Inr g3"
        using g3 Some by (simp add: afterCastling_def m1_def)
      have s: "s2 = relocateRook s1 fromRow 0 3" using Some Queenside by (simp add: s2_def)
      show ?thesis
        unfolding s getPiece_relocateRook[OF wf1] getPiece_castleRook[OF wfm c] e1 by simp
    qed
  qed
  have pl: "cellAlike (pcolor piece) (Some piece) (Some (placedPiece piece mi promo))"
    using rawMove_promotion(1)[OF lf(1)] promo by (intro placedPiece_alike) simp_all
  have gs: "getPiece (simulateMove g fromRow fromCol toRow toCol (Some mi)) r col =
      (if r = fromRow \<and> col = fromCol then None
       else if r = toRow \<and> col = toCol then Some piece
       else getPiece s2 r col)"
    using lf(6,8) wf2 by (simp add: sim getPiece_setPiece_onBoard)
  have gm: "getPiece (snd (makeMove g fromRow fromCol toRow toCol promo)) r col =
      (if r = toRow \<and> col = toCol then Some (placedPiece piece mi promo)
       else if r = fromRow \<and> col = fromCol then None
       else getPiece g3 r col)"
    using lf(8) by (simp add: mm getPiece_movePiece[OF wf3 lf(6,7)])
  show ?thesis
    unfolding gs gm using lf(7) a2 pl by auto
qed

lemma makeMove_legal_king_safe:
  assumes "wfBoard (board g)"
    and "validMoves g = fst (getValidMoves g fromRow fromCol)"
    and "getPiece g fromRow fromCol = Some piece"
    and "find (hitsSquare toRow toCol) (validMoves g) = Some mi"
    and "promo \<noteq> Some King"
  shows "\<not> isInCheck (snd (makeMove g fromRow fromCol toRow toCol promo)) (pcolor piece)"
proof -
  note lf = legal_found[OF assms(2-4)]
  have "isInCheck (simulateMove g fromRow fromCol toRow toCol (Some mi)) (pcolor piece)
        = isInCheck (snd (makeMove g fromRow fromCol toRow toCol promo)) (pcolor piece)"
    by (rule alike_isInCheck) (rule makeMove_alike_simulateMove[OF assms])
  then show ?thesis using lf(2,3,4) by (simp add: legalAfter_def)
qed

lemma listed_found:
  assumes "m \<in> set ms"
  obtains m' where "find (hitsSquare (mrow m) (mcol m)) ms = Some m'"
proof (cases "find (hitsSquare (mrow m) (mcol m)) ms")
  case None
  then show ?thesis using assms by (auto simp: find_None_iff hitsSquare_def)
next
  case (Some m')
  then show ?thesis by (rule that)
qed

section \<open>Undoing a move\<close>

lemma undoMove_empty: "moveHistory g = [] \<Longrightarrow> undoMove g = (Inr False, g)"
  by (simp add: undoMove_def)

lemma opponent_opponent [simp]: "opponent (opponent c) = c"
  by (cases c) (simp_all add: opponent_def)

lemma restoredPiece_historyEntry:
  assumes "promotion mi \<and> promo \<noteq> None \<longrightarrow> ptype piece = Pawn"
  shows "restoredPiece (historyEntry g piece mi fromRow fromCol toRow toCol promo) = piece"
  using assms
  by (cases piece) (auto simp: restoredPiece_def historyEntry_def createPiece_def)

lemma historyEntry_fields [simp]:
  "hfrom (historyEntry g piece mi a b c d promo) = (a, b)"
  "hto (historyEntry g piece mi a b c d promo) = (c, d)"
  "hpiece (historyEntry g piece mi a b c d promo) = piece"
  "captured (historyEntry g piece mi a b c d promo) = capturedBy g piece mi c d"
  "hcastling (historyEntry g piece mi a b c d promo) = castling mi"
  "henPassant (historyEntry g piece mi a b c d promo) = enPassant mi"
  "hpromotion (historyEntry g piece mi a b c d promo) = promotion mi"
  "promotionPiece (historyEntry g piece mi a b c d promo) = promo"
  "previousEnPassant (historyEntry g piece mi a b c d promo) = enPassantTarget g"
  by (simp_all add: historyEntry_def)

lemma getPiece_moveHistory_update [simp]: "getPiece (g\<lparr>moveHistory := h\<rparr>) = getPiece g"
  by (intro ext) (simp add: getPiece_def)

lemma restorePieces_fields [simp]:
  "currentTurn (restorePieces g mv) = currentTurn g"
  "enPassantTarget (restorePieces g mv) = enPassantTarget g"
  "gameOver (restorePieces g mv) = gameOver g"
  "winner (restorePieces g mv) = winner g"
  "moveHistory (restorePieces g mv) = moveHistory g"
  "validMoves (restorePieces g mv) = validMoves g"
  "lastMove (restorePieces g mv) = lastMove g"
  "isCheck (restorePieces g mv) = isCheck g"
  "selectedPiece (restorePieces g mv) = selectedPiece g"
  by (simp_all add: restorePieces_def Let_def split: option.splits)

lemma wfBoard_restorePieces [simp]:
  "wfBoard (board g) \<Longrightarrow> wfBoard (board (restorePieces g mv))"
  by (simp add: restorePieces_def Let_def split: option.splits)

lemma restoreCastling_fields:
  assumes "restoreCastling g mv = Inr g'"
  shows "currentTurn g' = currentTurn g" "enPassantTarget g' = enPassantTarget g"
    "gameOver g' = gameOver g" "winner g' = winner g" "moveHistory g' = moveHistory g"
    "validMoves g' = validMoves g" "lastMove g' = lastMove g" "isCheck g' = isCheck g"
    "capturedWhite g' = capturedWhite g" "capturedBlack g' = capturedBlack g"
    "selectedPiece g' = selectedPiece g"
  using assms castleRook_fields[of g _ _ _ False g']
  by (auto simp: restoreCastling_def split: option.splits castle_side.splits)

lemma wfBoard_restoreCastling:
  "wfBoard (board g) \<Longrightarrow> restoreCastling g mv = Inr g' \<Longrightarrow> wfBoard (board g')"
  by (auto simp: restoreCastling_def split: option.splits castle_side.splits
           dest: wfBoard_castleRook)

lemma restoreStatus_fields [simp]:
  "board (restoreStatus g mv) = board g"
  "enPassantTarget (restoreStatus g mv) = previousEnPassant mv"
  "currentTurn (restoreStatus g mv) = opponent (currentTurn g)"
  "gameOver (restoreStatus g mv) = False"
  "winner (restoreStatus g mv) = None"
  "moveHistory (restoreStatus g mv) = moveHistory g"
  "validMoves (restoreStatus g mv) = validMoves g"
  "capturedWhite (restoreStatus g mv) = capturedWhite g"
  "capturedBlack (restoreStatus g mv) = capturedBlack g"
  "selectedPiece (restoreStatus g mv) = selectedPiece g"
  "lastMove (restoreStatus g mv) =
     (if moveHistory g = [] then None
      else Some (hfrom (last (moveHistory g)), hto (last (moveHistory g))))"
  by (simp_all add: restoreStatus_def Let_def)

lemma restoreStatus_isCheck:
  "isCheck (restoreStatus g mv)
     = isInCheck (g\<lparr>enPassantTarget := previousEnPassant mv\<rparr>) (opponent (currentTurn g))"
proof -
  have "samePosition
      (g\<lparr>enPassantTarget := previousEnPassant mv, currentTurn := opponent (currentTurn g),
         gameOver := False, winner := None\<rparr>)
      (g\<lparr>enPassantTarget := previousEnPassant mv\<rparr>)"
    by (simp add: samePosition_def)
  from samePosition_isInCheck[OF this] show ?thesis
    by (simp add: restoreStatus_def Let_def)
qed

lemma undoMove_unfold:
  assumes "moveHistory g = h @ [mv]"
  shows "undoMove g =
    (case restoreCastling (restorePieces (g\<lparr>moveHistory := h\<rparr>) mv) mv of
       Inl e \<Rightarrow> (Inl e, restorePieces (g\<lparr>moveHistory := h\<rparr>) mv)
     | Inr g2 \<Rightarrow> (Inr True, restoreStatus g2 mv))"
  using assms by (simp add: undoMove_def Let_def)


lemma onBoard_col: "onBoard r c \<Longrightarrow> 0 \<le> k \<Longrightarrow> k \<le> 7 \<Longrightarrow> onBoard r k"
  by (simp add: onBoard_def)

lemma onBoard_mixed: "onBoard r c \<Longrightarrow> onBoard r' c' \<Longrightarrow> onBoard r c'"
  by (simp add: onBoard_def)

lemma consistent_enPassant_empty:
  "consistent g \<Longrightarrow> enPassantTarget g = Some (r, c) \<Longrightarrow> getPiece g r c = None"
  by (simp add: consistent_def)

text \<open>The board after \<open>makeMove\<close> and the restoring blocks of \<open>undoMove\<close>, move kind by move kind.\<close>

lemma roundtrip_plain:
  assumes wf: "wfBoard (board g)"
    and p: "getPiece g fromRow fromCol = Some piece"
    and ob: "onBoard toRow toCol" "onBoard fromRow fromCol"
    and ne: "toRow \<noteq> fromRow \<or> toCol \<noteq> fromCol"
    and ep: "\<not> enPassant mi"
    and h: "moveHistory gm = h" "getPiece gm = getPiece (movePiece (afterCapture g piece mi toRow toCol)
              piece mi fromRow fromCol toRow toCol promo)"
      "wfBoard (board gm)"
    and mv: "restoredPiece mv = piece" "hfrom mv = (fromRow, fromCol)" "hto mv = (toRow, toCol)"
      "captured mv = getPiece g toRow toCol" "henPassant mv = False"
  shows "getPiece (restorePieces gm mv) r c = getPiece g r c"
proof -
  have wf2: "wfBoard (board (afterCapture g piece mi toRow toCol))" using wf by simp
  show ?thesis
  proof (cases "getPiece g toRow toCol")
    case None
    then show ?thesis
      using p ob ne ep mv
      by (auto simp: restorePieces_def Let_def getPiece_setPiece_onBoard h
          getPiece_movePiece[OF wf2 ob(1) ne] getPiece_afterCapture[OF wf])
  next
    case (Some cp)
    then show ?thesis
      using p ob ne ep mv
      by (auto simp: restorePieces_def Let_def getPiece_setPiece_onBoard h
          getPiece_movePiece[OF wf2 ob(1) ne] getPiece_afterCapture[OF wf])
  qed
qed

lemma roundtrip_enPassant:
  assumes wf: "wfBoard (board g)"
    and p: "getPiece g fromRow fromCol = Some piece"
    and ob: "onBoard toRow toCol" "onBoard fromRow fromCol"
    and row: "toRow = fromRow + direction piece" and col: "toCol \<noteq> fromCol"
    and empty: "getPiece g toRow toCol = None"
    and ep: "enPassant mi"
    and h: "getPiece gm = getPiece (movePiece (afterCapture g piece mi toRow toCol)
              piece mi fromRow fromCol toRow toCol promo)"
      "wfBoard (board gm)"
    and mv: "restoredPiece mv = piece" "hfrom mv = (fromRow, fromCol)" "hto mv = (toRow, toCol)"
      "captured mv = getPiece g fromRow toCol" "henPassant mv = True"
  shows "getPiece (restorePieces gm mv) r c = getPiece g r c"
proof -
  have wf2: "wfBoard (board (afterCapture g piece mi toRow toCol))" using wf by simp
  have ne: "toRow \<noteq> fromRow \<or> toCol \<noteq> fromCol" using col by simp
  have rne: "fromRow \<noteq> toRow" using row by (simp add: direction_def)
  have cr: "capturedRowFor piece toRow = fromRow" using row by (simp add: capturedRowFor_direction)
  have ob2: "onBoard fromRow toCol" using ob by (rule onBoard_mixed[rotated])
  show ?thesis
  proof (cases "getPiece g fromRow toCol")
    case None
    then show ?thesis
      using p ob ob2 col rne ep mv empty
      by (auto simp: restorePieces_def Let_def getPiece_setPiece_onBoard h cr
          getPiece_movePiece[OF wf2 ob(1) ne] getPiece_afterCapture[OF wf])
  next
    case (Some cp)
    then show ?thesis
      using p ob ob2 col rne ep mv empty
      by (auto simp: restorePieces_def Let_def getPiece_setPiece_onBoard h cr
          getPiece_movePiece[OF wf2 ob(1) ne] getPiece_afterCapture[OF wf])
  qed
qed


lemma roundtrip_castle:
  assumes wf: "wfBoard (board g)"
    and p: "getPiece g fromRow fromCol = Some piece"
    and rook: "getPiece g fromRow a = Some rook" "\<not> hasMoved rook"
    and empty: "getPiece g fromRow b = None" "getPiece g fromRow d = None"
    and cols: "0 \<le> a" "a \<le> 7" "0 \<le> b" "b \<le> 7" "0 \<le> d" "d \<le> 7" "a \<noteq> b" "a \<noteq> d" "b \<noteq> d"
    and fc: "fromCol \<noteq> a"
    and ob: "onBoard fromRow fromCol"
    and cr: "castleRook g fromRow a b True = Inr g3"
    and h: "getPiece gm = getPiece (movePiece g3 piece mi fromRow fromCol fromRow d promo)"
      "wfBoard (board gm)"
    and mv: "restoredPiece mv = piece" "hfrom mv = (fromRow, fromCol)" "hto mv = (fromRow, d)"
      "captured mv = None"
  shows "\<exists>V. castleRook (restorePieces gm mv) fromRow b a False = Inr V
           \<and> (\<forall>r c. getPiece V r c = getPiece g r c)"
proof -
  have fcb: "fromCol \<noteq> b" using p empty(1) by auto
  have fcd: "fromCol \<noteq> d" using p empty(2) by auto
  have oba: "onBoard fromRow a" and obb: "onBoard fromRow b" and obd: "onBoard fromRow d"
    using ob cols by (simp_all add: onBoard_def)
  have wf3: "wfBoard (board g3)" using wfBoard_castleRook[OF wf cr] .
  have ne: "fromRow \<noteq> fromRow \<or> d \<noteq> fromCol" using fcd by simp
  define U where "U = restorePieces gm mv"
  have wfU: "wfBoard (board U)" unfolding U_def using h(2) by simp
  have gU: "getPiece U r c =
      (if r = fromRow \<and> c = d then None
       else if r = fromRow \<and> c = fromCol then Some piece
       else if r = fromRow \<and> c = b then Some (rook\<lparr>hasMoved := True\<rparr>)
       else if r = fromRow \<and> c = a then None
       else getPiece g r c)" for r c
    unfolding U_def
    using ob oba obb obd fc fcb fcd cols(7-9) rook(1) mv
    by (auto simp: restorePieces_def Let_def getPiece_setPiece_onBoard h
        getPiece_movePiece[OF wf3 obd ne] getPiece_castleRook[OF wf cr])
  have unflag: "(rook\<lparr>hasMoved := True\<rparr>)\<lparr>hasMoved := False\<rparr> = rook"
    using rook(2) by (cases rook) simp
  have rb: "getPiece U fromRow b = Some (rook\<lparr>hasMoved := True\<rparr>)"
    using cols(7-9) fcb by (simp add: gU)
  define V where
    "V = setPiece (setPiece U fromRow b None) fromRow a (Some ((rook\<lparr>hasMoved := True\<rparr>)\<lparr>hasMoved := False\<rparr>))"
  have cV: "castleRook U fromRow b a False = Inr V"
    by (simp add: castleRook_def rb V_def)
  have "getPiece V r c = getPiece g r c" for r c
    unfolding V_def
    using oba obb obd fc fcb fcd cols(7-9) rook(1) p empty wfU
    by (auto simp: getPiece_setPiece_onBoard gU unflag)
  with cV show ?thesis unfolding U_def by blast
qed


lemma captured_afterCapture:
  "capturedWhite (afterCapture g piece mi toRow toCol) =
     (case capturedBy g piece mi toRow toCol of
        None \<Rightarrow> capturedWhite g
      | Some cp \<Rightarrow> if pcolor piece = White then capturedWhite g @ [cp] else capturedWhite g)"
  "capturedBlack (afterCapture g piece mi toRow toCol) =
     (case capturedBy g piece mi toRow toCol of
        None \<Rightarrow> capturedBlack g
      | Some cp \<Rightarrow> if pcolor piece = White then capturedBlack g else capturedBlack g @ [cp])"
  by (simp_all add: afterCapture_def Let_def pushCaptured_def split: option.splits)

lemma captured_restorePieces:
  "capturedWhite (restorePieces g mv) =
     (case captured mv of
        None \<Rightarrow> capturedWhite g
      | Some cp \<Rightarrow> if pcolor (restoredPiece mv) = White then butlast (capturedWhite g)
                   else capturedWhite g)"
  "capturedBlack (restorePieces g mv) =
     (case captured mv of
        None \<Rightarrow> capturedBlack g
      | Some cp \<Rightarrow> if pcolor (restoredPiece mv) = White then capturedBlack g
                   else butlast (capturedBlack g))"
  by (simp_all add: restorePieces_def Let_def popCaptured_def split: option.splits)

lemma legal_canMove:
  assumes "validMoves g = fst (getValidMoves g fromRow fromCol)"
    and "getPiece g fromRow fromCol = Some piece"
    and "find (hitsSquare toRow toCol) (validMoves g) = Some mi"
  shows "list_ex (canMove g) allSquares"
proof -
  note lf = legal_found[OF assms]
  have m: "mi \<in> set (legalMoves g fromRow fromCol)"
    using find_hits(1)[OF assms(3)] assms(1) by (simp add: getValidMoves_eq)
  then have "canMove g (fromRow, fromCol)"
    using assms(2) lf(5) by (auto simp: canMove_def)
  moreover have "(fromRow, fromCol) \<in> set allSquares"
    using lf(8) by (simp add: allSquares_set)
  ultimately show ?thesis by (auto simp: list_ex_iff)
qed

lemma afterCapture_nothing:
  "\<not> enPassant mi \<Longrightarrow> getPiece g toRow toCol = None \<Longrightarrow> afterCapture g piece mi toRow toCol = g"
  by (simp add: afterCapture_def capturedBy_def Let_def)

lemma undone_position:
  assumes c: "consistent g"
    and vm: "validMoves g = fst (getValidMoves g fromRow fromCol)"
    and p: "getPiece g fromRow fromCol = Some piece"
    and f: "find (hitsSquare toRow toCol) (validMoves g) = Some mi"
    and g3: "afterCastling (afterCapture g piece mi toRow toCol) mi fromRow = Inr g3"
    and gm: "getPiece gm = getPiece (movePiece g3 piece mi fromRow fromCol toRow toCol promo)"
      "wfBoard (board gm)"
  shows "\<exists>V. restoreCastling
                (restorePieces gm (historyEntry g piece mi fromRow fromCol toRow toCol promo))
                (historyEntry g piece mi fromRow fromCol toRow toCol promo) = Inr V
           \<and> (\<forall>r c. getPiece V r c = getPiece g r c)"
proof -
  note lf = legal_found[OF vm p f]
  have wf: "wfBoard (board g)" using c by (simp add: consistent_def)
  let ?mv = "historyEntry g piece mi fromRow fromCol toRow toCol promo"
  have "promotion mi \<and> promo \<noteq> None \<longrightarrow> ptype piece = Pawn"
    using rawMove_promotion(1)[OF lf(1)] by blast
  then have rp: "restoredPiece ?mv = piece" by (rule restoredPiece_historyEntry)
  show ?thesis
  proof (cases "castling mi")
    case None
    then have g3eq: "g3 = afterCapture g piece mi toRow toCol"
      using g3 by (simp add: afterCastling_def)
    have rc: "restoreCastling (restorePieces gm ?mv) ?mv = Inr (restorePieces gm ?mv)"
      using None by (simp add: restoreCastling_def)
    show ?thesis
    proof (cases "enPassant mi")
      case False
      have "getPiece (restorePieces gm ?mv) r c = getPiece g r c" for r c
        using False
        by (intro roundtrip_plain[OF wf p lf(6,8,7) False refl gm(1)[unfolded g3eq] gm(2) rp])
           (simp_all add: capturedBy_def)
      with rc show ?thesis by blast
    next
      case True
      note ep = rawMove_enPassant[OF lf(1) True]
      have row: "toRow = fromRow + direction piece" using ep(7) lf(3) by simp
      have col: "toCol \<noteq> fromCol" using ep(8) lf(4) by auto
      have empty: "getPiece g toRow toCol = None"
        using consistent_enPassant_empty[OF c] ep(3) lf(3,4) by simp
      have cr: "capturedRowFor piece toRow = fromRow"
        using row by (simp add: capturedRowFor_direction)
      have "getPiece (restorePieces gm ?mv) r c = getPiece g r c" for r c
        using True cr
        by (intro roundtrip_enPassant[OF wf p lf(6,8) row col empty True gm(1)[unfolded g3eq] gm(2) rp])
           (simp_all add: capturedBy_def)
      with rc show ?thesis by blast
    qed
  next
    case (Some side)
    then have ne: "castling mi \<noteq> None" by simp
    note k = rawMove_castling[OF lf(1) ne]
    note cm = getCastlingMoves_mem[OF k(5)]
    have row: "toRow = fromRow" using cm(1) lf(3) by simp
    have nep: "\<not> enPassant mi" by (rule cm(4))
    have empty: "getPiece g toRow toCol = None" using cm(6) lf(3,4) by simp
    have g2: "afterCapture g piece mi toRow toCol = g"
      using nep empty by (rule afterCapture_nothing)
    have cap: "captured ?mv = None" using nep empty by (simp add: capturedBy_def)
    show ?thesis
    proof (cases side)
      case Kingside
      with Some cm(8) lf(4) have col: "toCol = 6"
        and e: "getPiece g fromRow 5 = None" "getPiece g fromRow 6 = None" by simp_all
      from Some Kingside cm(8) obtain rook where rook: "getPiece g fromRow 7 = Some rook"
        "ptype rook = Rook" "\<not> hasMoved rook"
        by (cases "getPiece g fromRow 7") auto
      have fc: "fromCol \<noteq> 7" using p rook(1,2) k(1) by auto
      have cr: "castleRook g fromRow 7 5 True = Inr g3"
        using g3 Some Kingside by (simp add: afterCastling_def g2)
      have "\<exists>V. castleRook (restorePieces gm ?mv) fromRow 5 7 False = Inr V
           \<and> (\<forall>r c. getPiece V r c = getPiece g r c)"
        using cap
        by (intro roundtrip_castle[OF wf p rook(1,3) e _ _ _ _ _ _ _ _ _ fc lf(8) cr
              gm(1)[unfolded row col] gm(2) rp])
           (simp_all add: row col)
      then show ?thesis
        using Some Kingside by (simp add: restoreCastling_def)
    next
      case Queenside
      with Some cm(9) lf(4) have col: "toCol = 2"
        and e: "getPiece g fromRow 3 = None" "getPiece g fromRow 2 = None" by simp_all
      from Some Queenside cm(9) obtain rook where rook: "getPiece g fromRow 0 = Some rook"
        "ptype rook = Rook" "\<not> hasMoved rook"
        by (cases "getPiece g fromRow 0") auto
      have fc: "fromCol \<noteq> 0" using p rook(1,2) k(1) by auto
      have cr: "castleRook g fromRow 0 3 True = Inr g3"
        using g3 Some Queenside by (simp add: afterCastling_def g2)
      have "\<exists>V. castleRook (restorePieces gm ?mv) fromRow 3 0 False = Inr V
           \<and> (\<forall>r c. getPiece V r c = getPiece g r c)"
        using cap
        by (intro roundtrip_castle[OF wf p rook(1,3) e _ _ _ _ _ _ _ _ _ fc lf(8) cr
              gm(1)[unfolded row col] gm(2) rp])
           (simp_all add: row col)
      then show ?thesis
        using Some Queenside by (simp add: restoreCastling_def)
    qed
  qed
qed


lemma samePosition_boardI:
  assumes "wfBoard (board g)" "wfBoard (board g')" "\<forall>r c. getPiece g r c = getPiece g' r c"
    "enPassantTarget g = enPassantTarget g'"
  shows "samePosition g g'"
  using board_eqI[OF assms(1,2)] assms(3,4) by (simp add: samePosition_def)

lemma make_undo_state:
  assumes c: "consistent g"
    and vm: "validMoves g = fst (getValidMoves g fromRow fromCol)"
    and p: "getPiece g fromRow fromCol = Some piece"
    and f: "find (hitsSquare toRow toCol) (validMoves g) = Some mi"
  shows "undoMove (snd (makeMove g fromRow fromCol toRow toCol promo)) = (Inr True, g)"
proof -
  note lf = legal_found[OF vm p f]
  have wf: "wfBoard (board g)" using c by (simp add: consistent_def)
  let ?mv = "historyEntry g piece mi fromRow fromCol toRow toCol promo"
  obtain g3 where
    g3: "afterCastling (afterCapture g piece mi toRow toCol) mi fromRow = Inr g3" and
    mm: "makeMove g fromRow fromCol toRow toCol promo =
       (Inr True, checkGameState (beforeCheck g3 piece mi ?mv fromRow fromCol toRow toCol promo))"
    by (rule makeMove_legal[OF vm p f])
  define g' where
    "g' = checkGameState (beforeCheck g3 piece mi ?mv fromRow fromCol toRow toCol promo)"
  define g0 where "g0 = g'\<lparr>moveHistory := moveHistory g\<rparr>"
  note f3 = afterCastling_fields[OF g3]
  have wf3: "wfBoard (board g3)" using wfBoard_afterCastling[OF _ g3] wf by simp
  have hist: "moveHistory g' = moveHistory g @ [?mv]"
    by (simp add: g'_def f3)
  have gp0: "getPiece g0 = getPiece (movePiece g3 piece mi fromRow fromCol toRow toCol promo)"
    by (simp add: g0_def g'_def)
  have wf0: "wfBoard (board g0)"
    using wf3 by (simp add: g0_def g'_def)
  from undone_position[OF c vm p f g3 gp0 wf0]
  obtain V where V: "restoreCastling (restorePieces g0 ?mv) ?mv = Inr V"
    and same: "\<forall>r c. getPiece V r c = getPiece g r c" by blast
  note fV = restoreCastling_fields[OF V]
  have wfV: "wfBoard (board V)"
    using wfBoard_restoreCastling[OF _ V] wf0 by simp
  have bV: "board V = board g"
    using board_eqI[OF wfV wf] same by simp
  have un: "undoMove g' = (Inr True, restoreStatus V ?mv)"
    using undoMove_unfold[OF hist] V by (simp add: g0_def)
  have "promotion mi \<and> promo \<noteq> None \<longrightarrow> ptype piece = Pawn"
    using rawMove_promotion(1)[OF lf(1)] by blast
  then have rp: "restoredPiece ?mv = piece" by (rule restoredPiece_historyEntry)
  have ongoing: "\<not> gameOver g" "winner g = None"
    using c legal_canMove[OF vm p f] by (auto simp: consistent_def split: if_splits)
  have sp: "samePosition (V\<lparr>enPassantTarget := enPassantTarget g\<rparr>) g"
    by (simp add: samePosition_def bV)
  have turn: "currentTurn V = opponent (currentTurn g)"
    by (simp add: fV g0_def g'_def f3)
  have chk: "isCheck (restoreStatus V ?mv) = isCheck g"
    using c samePosition_isInCheck[OF sp]
    by (simp add: restoreStatus_isCheck turn consistent_def)
  have lm: "lastMove (restoreStatus V ?mv) = lastMove g"
    using c by (simp add: fV g0_def consistent_def)
  have cw: "capturedWhite (restoreStatus V ?mv) = capturedWhite g"
    by (simp add: fV(9) captured_restorePieces rp g0_def g'_def f3(9) captured_afterCapture
        split: option.splits)
  have cb: "capturedBlack (restoreStatus V ?mv) = capturedBlack g"
    by (simp add: fV(10) captured_restorePieces rp g0_def g'_def f3(10) captured_afterCapture
        split: option.splits)
  have "restoreStatus V ?mv = g"
  proof (rule game.equality)
    show "board (restoreStatus V ?mv) = board g" by (simp add: bV)
    show "currentTurn (restoreStatus V ?mv) = currentTurn g" by (simp add: turn)
    show "selectedPiece (restoreStatus V ?mv) = selectedPiece g"
      by (simp add: fV g0_def g'_def f3)
    show "validMoves (restoreStatus V ?mv) = validMoves g"
      by (simp add: fV g0_def g'_def f3)
    show "moveHistory (restoreStatus V ?mv) = moveHistory g"
      by (simp add: fV g0_def)
    show "capturedWhite (restoreStatus V ?mv) = capturedWhite g" by (rule cw)
    show "capturedBlack (restoreStatus V ?mv) = capturedBlack g" by (rule cb)
    show "enPassantTarget (restoreStatus V ?mv) = enPassantTarget g" by simp
    show "gameOver (restoreStatus V ?mv) = gameOver g" using ongoing by simp
    show "winner (restoreStatus V ?mv) = winner g" using ongoing by simp
    show "isCheck (restoreStatus V ?mv) = isCheck g" by (rule chk)
    show "lastMove (restoreStatus V ?mv) = lastMove g" by (rule lm)
    show "game.more (restoreStatus V ?mv) = game.more g" by simp
  qed
  then show ?thesis by (simp add: mm g'_def[symmetric] un)
qed

section \<open>Reachable states\<close>

lemma isInCheck_reset: "isInCheck reset White = False"
  by code_simp

lemma consistent_reset: "consistent reset"
proof -
  have "isCheck reset = False" "currentTurn reset = White" "gameOver reset = False"
    "winner reset = None" "enPassantTarget reset = None" "lastMove reset = None"
    "moveHistory reset = []"
    by (simp_all add: reset_def)
  then show ?thesis
    by (simp add: consistent_def isInCheck_reset)
qed

lemma samePosition_validMoves [simp]: "samePosition (g\<lparr>validMoves := vm\<rparr>) g"
  by (simp add: samePosition_def)

lemma getPiece_validMoves_update [simp]: "getPiece (g\<lparr>validMoves := vm\<rparr>) = getPiece g"
  by (intro ext) (simp add: getPiece_def)

lemma isInCheck_validMoves [simp]: "isInCheck (g\<lparr>validMoves := vm\<rparr>) c = isInCheck g c"
  by (rule samePosition_isInCheck) simp

lemma canMove_validMoves [simp]: "canMove (g\<lparr>validMoves := vm\<rparr>) = canMove g"
  by (intro ext samePosition_canMove) simp_all

lemma legalMoves_validMoves [simp]: "legalMoves (g\<lparr>validMoves := vm\<rparr>) r c = legalMoves g r c"
  by (rule samePosition_legalMoves) simp_all

lemma consistent_validMoves [simp]: "consistent (g\<lparr>validMoves := vm\<rparr>) = consistent g"
  by (simp add: consistent_def cong: option.case_cong if_cong)

lemma selectPiece_eq: "selectPiece g r c = g\<lparr>validMoves := legalMoves g r c\<rparr>"
  by (simp add: selectPiece_def getValidMoves_eq)

lemma setPiece_validMoves:
  "setPiece (g\<lparr>validMoves := vm\<rparr>) r c p = (setPiece g r c p)\<lparr>validMoves := vm\<rparr>"
  by (simp add: setPiece_def)

lemma popCaptured_validMoves:
  "popCaptured (g\<lparr>validMoves := vm\<rparr>) c = (popCaptured g c)\<lparr>validMoves := vm\<rparr>"
  by (simp add: popCaptured_def)

lemma restorePieces_validMoves:
  "restorePieces (g\<lparr>validMoves := vm\<rparr>) mv = (restorePieces g mv)\<lparr>validMoves := vm\<rparr>"
  by (simp add: restorePieces_def Let_def setPiece_validMoves popCaptured_validMoves
      split: option.splits)

lemma castleRook_validMoves:
  "castleRook (g\<lparr>validMoves := vm\<rparr>) r a b f =
     (case castleRook g r a b f of Inl e \<Rightarrow> Inl e | Inr g' \<Rightarrow> Inr (g'\<lparr>validMoves := vm\<rparr>))"
  by (simp add: castleRook_def setPiece_validMoves split: option.splits)

lemma restoreCastling_validMoves:
  "restoreCastling (g\<lparr>validMoves := vm\<rparr>) mv =
     (case restoreCastling g mv of Inl e \<Rightarrow> Inl e | Inr g' \<Rightarrow> Inr (g'\<lparr>validMoves := vm\<rparr>))"
  by (simp add: restoreCastling_def castleRook_validMoves split: option.splits castle_side.splits)

lemma restoreStatus_validMoves:
  "restoreStatus (g\<lparr>validMoves := vm\<rparr>) mv = (restoreStatus g mv)\<lparr>validMoves := vm\<rparr>"
proof -
  have "isInCheck
         (g\<lparr>validMoves := vm, enPassantTarget := previousEnPassant mv,
            currentTurn := opponent (currentTurn g), gameOver := False, winner := None\<rparr>)
         (opponent (currentTurn g))
      = isInCheck
         (g\<lparr>enPassantTarget := previousEnPassant mv,
            currentTurn := opponent (currentTurn g), gameOver := False, winner := None\<rparr>)
         (opponent (currentTurn g))"
    by (rule samePosition_isInCheck) (simp add: samePosition_def)
  then show ?thesis
    by (simp add: restoreStatus_def Let_def)
qed

lemma undoMove_validMoves:
  "undoMove (g\<lparr>validMoves := vm\<rparr>) = (fst (undoMove g), (snd (undoMove g))\<lparr>validMoves := vm\<rparr>)"
proof (cases "moveHistory g = []")
  case True
  then show ?thesis by (simp add: undoMove_def)
next
  case False
  define bh where "bh = butlast (moveHistory g)"
  define mv where "mv = last (moveHistory g)"
  define G0 where "G0 = g\<lparr>moveHistory := bh\<rparr>"
  define gv where "gv = g\<lparr>validMoves := vm\<rparr>"
  have hist: "moveHistory g = bh @ [mv]" "moveHistory gv = bh @ [mv]"
    using False by (simp_all add: bh_def mv_def gv_def)
  have e1: "gv\<lparr>moveHistory := bh\<rparr> = G0\<lparr>validMoves := vm\<rparr>"
    by (simp add: G0_def gv_def)
  have A: "undoMove gv =
      (case restoreCastling (restorePieces (G0\<lparr>validMoves := vm\<rparr>) mv) mv of
         Inl e \<Rightarrow> (Inl e, restorePieces (G0\<lparr>validMoves := vm\<rparr>) mv)
       | Inr g2 \<Rightarrow> (Inr True, restoreStatus g2 mv))"
    using undoMove_unfold[OF hist(2)] unfolding e1 .
  have B: "undoMove g =
      (case restoreCastling (restorePieces G0 mv) mv of
         Inl e \<Rightarrow> (Inl e, restorePieces G0 mv)
       | Inr g2 \<Rightarrow> (Inr True, restoreStatus g2 mv))"
    using undoMove_unfold[OF hist(1)] unfolding G0_def .
  have "undoMove gv = (fst (undoMove g), (snd (undoMove g))\<lparr>validMoves := vm\<rparr>)"
    unfolding A B
    by (cases "restoreCastling (restorePieces G0 mv) mv")
       (simp_all add: restorePieces_validMoves restoreCastling_validMoves restoreStatus_validMoves)
  then show ?thesis by (simp add: gv_def)
qed

lemma undoable_consistent: "undoable g \<Longrightarrow> consistent g"
  by (cases rule: undoable.cases) simp_all

lemma undoable_validMoves: "undoable g \<Longrightarrow> undoable (g\<lparr>validMoves := vm\<rparr>)"
proof (induction rule: undoable.induct)
  case (undoable_start g)
  then show ?case by (simp add: undoable.undoable_start)
next
  case (undoable_move g)
  have 1: "consistent (g\<lparr>validMoves := vm\<rparr>)" using undoable_move.hyps(1) by simp
  have 2: "moveHistory (g\<lparr>validMoves := vm\<rparr>) \<noteq> []" using undoable_move.hyps(2) by simp
  have 3: "fst (undoMove (g\<lparr>validMoves := vm\<rparr>)) = Inr True"
    using undoable_move.hyps(3) by (simp add: undoMove_validMoves)
  have 4: "undoable (snd (undoMove (g\<lparr>validMoves := vm\<rparr>)))"
    using undoable_move.IH by (simp add: undoMove_validMoves)
  show ?case by (rule undoable.undoable_move[OF 1 2 3 4])
qed


lemma consistent_makeMove:
  assumes c: "consistent g"
    and vm: "validMoves g = fst (getValidMoves g fromRow fromCol)"
    and p: "getPiece g fromRow fromCol = Some piece"
    and f: "find (hitsSquare toRow toCol) (validMoves g) = Some mi"
  shows "consistent (snd (makeMove g fromRow fromCol toRow toCol promo))"
    and "moveHistory (snd (makeMove g fromRow fromCol toRow toCol promo)) \<noteq> []"
proof -
  note lf = legal_found[OF vm p f]
  have wf: "wfBoard (board g)" using c by (simp add: consistent_def)
  let ?mv = "historyEntry g piece mi fromRow fromCol toRow toCol promo"
  obtain g3 where
    g3: "afterCastling (afterCapture g piece mi toRow toCol) mi fromRow = Inr g3" and
    mm: "makeMove g fromRow fromCol toRow toCol promo =
       (Inr True, checkGameState (beforeCheck g3 piece mi ?mv fromRow fromCol toRow toCol promo))"
    by (rule makeMove_legal[OF vm p f])
  define g6 where "g6 = beforeCheck g3 piece mi ?mv fromRow fromCol toRow toCol promo"
  note f3 = afterCastling_fields[OF g3]
  have wf3: "wfBoard (board g3)" using wfBoard_afterCastling[OF _ g3] wf by simp
  have ongoing: "\<not> gameOver g" "winner g = None"
    using c legal_canMove[OF vm p f] by (auto simp: consistent_def split: if_splits)
  have go6: "\<not> gameOver g6" "winner g6 = None"
    using ongoing by (simp_all add: g6_def f3)
  have res: "snd (makeMove g fromRow fromCol toRow toCol promo) = checkGameState g6"
    by (simp add: mm g6_def)
  show "moveHistory (snd (makeMove g fromRow fromCol toRow toCol promo)) \<noteq> []"
    by (simp add: res g6_def)
  have w: "wfBoard (board (checkGameState g6))" using wf3 by (simp add: g6_def)
  have ic: "isCheck (checkGameState g6) = isInCheck (checkGameState g6) (currentTurn (checkGameState g6))"
    by (simp add: checkGameState_isInCheck)
  have ending: "if gameOver (checkGameState g6) then \<not> list_ex (canMove (checkGameState g6)) allSquares
              else winner (checkGameState g6) = None"
  proof (cases "list_ex (canMove g6) allSquares")
    case True
    from checkGameState_ongoing[OF True] go6 show ?thesis by simp
  next
    case False
    from checkGameState_terminal[OF False] False show ?thesis
      by (simp add: checkGameState_canMove)
  qed
  have ept: "case enPassantTarget (checkGameState g6) of None \<Rightarrow> True
             | Some s \<Rightarrow> getPiece (checkGameState g6) (fst s) (snd s) = None"
  proof (cases "twoStep mi")
    case False
    then show ?thesis by (simp add: g6_def)
  next
    case True
    note ts = rawMove_twoStep[OF lf(1) True]
    have g3eq: "g3 = afterCapture g piece mi toRow toCol"
      using g3 ts(5) by (simp add: afterCastling_def)
    have row: "toRow = fromRow + 2 * direction piece" and col: "toCol = fromCol"
      using ts(7,8) lf(3,4) by simp_all
    have cr: "capturedRowFor piece toRow = fromRow + direction piece"
      using row by (simp add: capturedRowFor_direction)
    have d: "direction piece \<noteq> 0" "fromRow + direction piece \<noteq> toRow"
      using row by (simp_all add: direction_def)
    have "getPiece (movePiece g3 piece mi fromRow fromCol toRow toCol promo)
            (fromRow + direction piece) fromCol = None"
      using d ts(4,10)
      by (simp add: getPiece_movePiece[OF wf3[unfolded g3eq] lf(6,7)] g3eq
          getPiece_afterCapture[OF wf])
    then show ?thesis
      using True by (simp add: g6_def cr col)
  qed
  have lm: "lastMove (checkGameState g6) =
      (if moveHistory (checkGameState g6) = [] then None
       else Some (hfrom (last (moveHistory (checkGameState g6))),
                  hto (last (moveHistory (checkGameState g6)))))"
    by (simp add: g6_def)
  show "consistent (snd (makeMove g fromRow fromCol toRow toCol promo))"
    unfolding res consistent_def using w ic ending ept lm by blast
qed

lemma reachable_undoable: "reachable g \<Longrightarrow> undoable g"
proof (induction rule: reachable.induct)
  case reachable_reset
  show ?case by (rule undoable_start[OF consistent_reset]) (simp add: reset_def)
next
  case (reachable_select g r c)
  then show ?case by (simp add: selectPiece_eq undoable_validMoves)
next
  case (reachable_deselect g)
  then show ?case by (simp add: undoable_validMoves)
next
  case (reachable_move g fromRow fromCol toRow toCol promo)
  show ?case
  proof (cases "getPiece g fromRow fromCol = None
                \<or> find (hitsSquare toRow toCol) (validMoves g) = None")
    case True
    then show ?thesis
      using reachable_move.IH by (simp add: makeMove_reject)
  next
    case False
    then obtain piece mi where p: "getPiece g fromRow fromCol = Some piece"
      and f: "find (hitsSquare toRow toCol) (validMoves g) = Some mi" by auto
    note c = undoable_consistent[OF reachable_move.IH]
    note vm = reachable_move.hyps(2)
    note cm = consistent_makeMove[OF c vm p f, of promo]
    note rt = make_undo_state[OF c vm p f, of promo]
    show ?thesis
      using reachable_move.IH by (intro undoable_move[OF cm]) (simp_all add: rt)
  qed
next
  case (reachable_undo g)
  from reachable_undo.IH show ?case
  proof (cases rule: undoable.cases)
    case undoable_start
    then show ?thesis
      using reachable_undo.IH by (simp add: undoMove_empty)
  next
    case undoable_move
    then show ?thesis by simp
  qed
qed

lemma reachable_consistent: "reachable g \<Longrightarrow> consistent g"
  by (rule undoable_consistent[OF reachable_undoable])

lemma reachable_playMove: "reachable g \<Longrightarrow> reachable (playMove g from to promo)"
proof -
  assume r: "reachable g"
  have s: "reachable (selectPiece g (fst from) (snd from))" using r by (rule reachable_select)
  have "validMoves (selectPiece g (fst from) (snd from))
          = fst (getValidMoves (selectPiece g (fst from) (snd from)) (fst from) (snd from))"
    by (simp add: selectPiece_eq getValidMoves_eq)
  from reachable_move[OF s this] show ?thesis
    unfolding playMove_def by (rule reachable_deselect)
qed

section \<open>The search agent restores what it touches\<close>

text \<open>
  Every loop of the agent saves the board (and, in the search, the en-passant target and the
  turn) before it plays a move and writes the saved values back afterwards; no other field
  is written. The score the search returns is always a number, never one of the infinities.
\<close>

lemma setPiece_restore_board:
  "(setPiece g r c p)\<lparr>board := bd\<rparr> = g\<lparr>board := bd\<rparr>"
  by (simp add: setPiece_def)

lemma relocateRook_restore:
  "(relocateRook g r a b)\<lparr>board := bd\<rparr> = g\<lparr>board := bd\<rparr>"
  by (simp add: relocateRook_def Let_def setPiece_restore_board)

lemma playForMinimax_restore:
  "(playForMinimax g row col piece m)\<lparr>board := bd\<rparr> = g\<lparr>board := bd\<rparr>"
  by (cases "castling m"; cases "enPassant m")
     (simp_all add: playForMinimax_def Let_def setPiece_restore_board relocateRook_restore
        split: castle_side.splits)

lemma setPiece_restore_both:
  "(setPiece g r c p)\<lparr>board := bd, enPassantTarget := ep\<rparr> = g\<lparr>board := bd, enPassantTarget := ep\<rparr>"
  by (simp add: setPiece_def)

lemma relocateRook_restore_both:
  "(relocateRook g r a b)\<lparr>board := bd, enPassantTarget := ep\<rparr> = g\<lparr>board := bd, enPassantTarget := ep\<rparr>"
  by (simp add: relocateRook_def Let_def setPiece_restore_both)

lemma makeSimulatedMove_restore:
  "(makeSimulatedMove g m)\<lparr>board := bd, enPassantTarget := ep\<rparr> = g\<lparr>board := bd, enPassantTarget := ep\<rparr>"
proof (cases "getPiece g (fst (vfrom m)) (snd (vfrom m))")
  case None
  then show ?thesis by (simp add: makeSimulatedMove_def)
next
  case (Some piece)
  have upd: "\<And>h x. (h\<lparr>enPassantTarget := x\<rparr>)\<lparr>board := bd, enPassantTarget := ep\<rparr>
                   = h\<lparr>board := bd, enPassantTarget := ep\<rparr>"
    by simp
  show ?thesis using Some
    by (cases "castling (vto m)"; cases "enPassant (vto m)"; cases "promotion (vto m)")
       (simp_all only: makeSimulatedMove_def Let_def option.case castle_side.case if_True if_False
          simp_thms upd setPiece_restore_both relocateRook_restore_both split: castle_side.splits)
qed

lemma played_restore:
  "((makeSimulatedMove g m)\<lparr>currentTurn := t\<rparr>)\<lparr>board := board g,
      enPassantTarget := enPassantTarget g, currentTurn := currentTurn g\<rparr> = g"
proof -
  have "((makeSimulatedMove g m)\<lparr>currentTurn := t\<rparr>)\<lparr>board := board g,
      enPassantTarget := enPassantTarget g, currentTurn := currentTurn g\<rparr>
      = ((makeSimulatedMove g m)\<lparr>board := board g, enPassantTarget := enPassantTarget g\<rparr>)
          \<lparr>currentTurn := currentTurn g\<rparr>"
    by simp
  also have "\<dots> = g" by (simp add: makeSimulatedMove_restore)
  finally show ?thesis .
qed

lemma getValidMovesForMinimaxLoop_frame:
  "snd (getValidMovesForMinimaxLoop g row col piece ms acc) = g"
proof (induction ms arbitrary: acc)
  case Nil
  show ?case by simp
next
  case (Cons m ms)
  have "(playForMinimax (g\<lparr>board := board g\<rparr>) row col piece m)\<lparr>board := board g\<rparr> = g"
    by (simp add: playForMinimax_restore)
  then show ?case using Cons.IH by (simp add: Let_def)
qed

lemma getValidMovesForMinimax_frame: "snd (getValidMovesForMinimax g row col piece) = g"
  by (simp add: getValidMovesForMinimax_def getValidMovesForMinimaxLoop_frame)

lemma getAllValidMovesForMinimaxLoop_frame:
  "snd (getAllValidMovesForMinimaxLoop g color ss acc) = g"
  by (induction ss arbitrary: acc)
     (simp_all add: Let_def getValidMovesForMinimax_frame split: option.splits)

lemma getAllValidMovesForMinimax_frame: "snd (getAllValidMovesForMinimax g color) = g"
  by (simp add: getAllValidMovesForMinimax_def getAllValidMovesForMinimaxLoop_frame)

lemma minimax_frame:
  "snd (minimax ai g depth alpha beta isMax aiColor) = g"
  "currentTurn g = cc \<Longrightarrow> snd (maximize ai g d cc aiColor ms alpha beta best) = g"
  "currentTurn g = cc \<Longrightarrow> snd (minimize ai g d cc aiColor ms alpha beta best) = g"
proof (induction ai g depth alpha beta isMax aiColor and ai g d cc aiColor ms alpha beta best
         and ai g d cc aiColor ms alpha beta best rule: minimax_maximize_minimize.induct)
  case (1 ai g alpha beta isMaximizing aiColor)
  show ?case by simp
next
  case (2 ai g d alpha beta isMaximizing aiColor)
  define res where "res = getAllValidMovesForMinimax g (currentTurn g)"
  have fr: "snd res = g"
    unfolding res_def by (rule getAllValidMovesForMinimax_frame)
  show ?case
  proof (cases "length (fst res) = 0")
    case True
    then show ?thesis by (simp add: Let_def res_def[symmetric] fr)
  next
    case False
    show ?thesis
    proof (cases isMaximizing)
      case True
      have "snd (maximize ai (snd res) d (currentTurn g) aiColor (fst res) alpha beta
                   MinusInfinity) = snd res"
        using "2.IH"(1)[OF refl res_def refl refl False True] fr by simp
      then show ?thesis using False True by (simp add: Let_def res_def[symmetric] fr)
    next
      case F: False
      have "snd (minimize ai (snd res) d (currentTurn g) aiColor (fst res) alpha beta
                   PlusInfinity) = snd res"
        using "2.IH"(2)[OF refl res_def refl refl False F] fr by simp
      then show ?thesis using False F by (simp add: Let_def res_def[symmetric] fr)
    qed
  qed
next
  case (3 ai g d currentColor aiColor alpha beta maxScore)
  show ?case by simp
next
  case (4 ai g d currentColor aiColor move rest alpha beta maxScore)
  define g1 where "g1 = (makeSimulatedMove g move)\<lparr>currentTurn := opponent currentColor\<rparr>"
  define res where "res = minimax ai g1 d alpha beta False aiColor"
  define g2 where "g2 = (snd res)\<lparr>board := copyBoard (board g),
     enPassantTarget := enPassantTarget g, currentTurn := currentColor\<rparr>"
  have s: "snd res = g1" unfolding res_def
    by (rule "4.IH"(1)[OF refl refl g1_def])
  have restored: "g2 = g"
    unfolding g2_def s g1_def using "4.prems" played_restore[where g = g and m = move] by simp
  have unf: "maximize ai g d currentColor aiColor (move # rest) alpha beta maxScore
     = (if scoreLe beta (scoreMax alpha (fst res)) then (scoreMax maxScore (fst res), g2)
        else maximize ai g2 d currentColor aiColor rest (scoreMax alpha (fst res)) beta
               (scoreMax maxScore (fst res)))"
    by (simp add: Let_def res_def g1_def g2_def)
  show ?case
  proof (cases "scoreLe beta (scoreMax alpha (fst res))")
    case True
    then show ?thesis using restored unf by simp
  next
    case False
    have "snd (maximize ai g2 d currentColor aiColor rest (scoreMax alpha (fst res)) beta
                 (scoreMax maxScore (fst res))) = g2"
      using "4.IH"(2)[OF refl refl g1_def res_def g2_def refl refl False] restored "4.prems"
      by simp
    then show ?thesis using False restored unf by simp
  qed
next
  case (5 ai g d currentColor aiColor alpha beta minScore)
  show ?case by simp
next
  case (6 ai g d currentColor aiColor move rest alpha beta minScore)
  define g1 where "g1 = (makeSimulatedMove g move)\<lparr>currentTurn := opponent currentColor\<rparr>"
  define res where "res = minimax ai g1 d alpha beta True aiColor"
  define g2 where "g2 = (snd res)\<lparr>board := copyBoard (board g),
     enPassantTarget := enPassantTarget g, currentTurn := currentColor\<rparr>"
  have s: "snd res = g1" unfolding res_def
    by (rule "6.IH"(1)[OF refl refl g1_def])
  have restored: "g2 = g"
    unfolding g2_def s g1_def using "6.prems" played_restore[where g = g and m = move] by simp
  have unf: "minimize ai g d currentColor aiColor (move # rest) alpha beta minScore
     = (if scoreLe (scoreMin beta (fst res)) alpha then (scoreMin minScore (fst res), g2)
        else minimize ai g2 d currentColor aiColor rest alpha (scoreMin beta (fst res))
               (scoreMin minScore (fst res)))"
    by (simp add: Let_def res_def g1_def g2_def)
  show ?case
  proof (cases "scoreLe (scoreMin beta (fst res)) alpha")
    case True
    then show ?thesis using restored unf by simp
  next
    case False
    have "snd (minimize ai g2 d currentColor aiColor rest alpha (scoreMin beta (fst res))
                 (scoreMin minScore (fst res))) = g2"
      using "6.IH"(2)[OF refl refl g1_def res_def g2_def refl refl False] restored "6.prems"
      by simp
    then show ?thesis using False restored unf by simp
  qed
qed

lemma scoreMax_Number:
  "scoreMax MinusInfinity (Number n) = Number n"
  "\<exists>k. scoreMax (Number a) (Number n) = Number k"
  by (simp_all add: scoreMax_def)

lemma scoreMin_Number:
  "scoreMin PlusInfinity (Number n) = Number n"
  "\<exists>k. scoreMin (Number a) (Number n) = Number k"
  by (simp_all add: scoreMin_def)

lemma minimax_Number:
  "\<exists>n. fst (minimax ai g depth alpha beta isMax aiColor) = Number n"
  "(ms \<noteq> [] \<and> best = MinusInfinity) \<or> (\<exists>n. best = Number n)
    \<Longrightarrow> \<exists>n. fst (maximize ai g d cc aiColor ms alpha beta best) = Number n"
  "(ms \<noteq> [] \<and> best = PlusInfinity) \<or> (\<exists>n. best = Number n)
    \<Longrightarrow> \<exists>n. fst (minimize ai g d cc aiColor ms alpha beta best) = Number n"
proof (induction ai g depth alpha beta isMax aiColor and ai g d cc aiColor ms alpha beta best
         and ai g d cc aiColor ms alpha beta best rule: minimax_maximize_minimize.induct)
  case (1 ai g alpha beta isMaximizing aiColor)
  show ?case by simp
next
  case (2 ai g d alpha beta isMaximizing aiColor)
  define res where "res = getAllValidMovesForMinimax g (currentTurn g)"
  show ?case
  proof (cases "length (fst res) = 0")
    case True
    then show ?thesis by (simp add: Let_def res_def[symmetric])
  next
    case False
    show ?thesis
    proof (cases isMaximizing)
      case True
      have "\<exists>n. fst (maximize ai (snd res) d (currentTurn g) aiColor (fst res) alpha beta
                   MinusInfinity) = Number n"
        using "2.IH"(1)[OF refl res_def refl refl False True] False by simp
      then show ?thesis using False True by (simp add: Let_def res_def[symmetric])
    next
      case F: False
      have "\<exists>n. fst (minimize ai (snd res) d (currentTurn g) aiColor (fst res) alpha beta
                   PlusInfinity) = Number n"
        using "2.IH"(2)[OF refl res_def refl refl False F] False by simp
      then show ?thesis using False F by (simp add: Let_def res_def[symmetric])
    qed
  qed
next
  case (3 ai g d currentColor aiColor alpha beta maxScore)
  then show ?case by simp
next
  case (4 ai g d currentColor aiColor move rest alpha beta maxScore)
  define g1 where "g1 = (makeSimulatedMove g move)\<lparr>currentTurn := opponent currentColor\<rparr>"
  define res where "res = minimax ai g1 d alpha beta False aiColor"
  define g2 where "g2 = (snd res)\<lparr>board := copyBoard (board g),
     enPassantTarget := enPassantTarget g, currentTurn := currentColor\<rparr>"
  obtain n where n: "fst res = Number n"
    using "4.IH"(1)[OF refl refl g1_def] unfolding res_def by blast
  have num: "\<exists>k. scoreMax maxScore (fst res) = Number k"
    using "4.prems" n scoreMax_Number by auto
  have unf: "maximize ai g d currentColor aiColor (move # rest) alpha beta maxScore
     = (if scoreLe beta (scoreMax alpha (fst res)) then (scoreMax maxScore (fst res), g2)
        else maximize ai g2 d currentColor aiColor rest (scoreMax alpha (fst res)) beta
               (scoreMax maxScore (fst res)))"
    by (simp add: Let_def res_def g1_def g2_def)
  show ?case
  proof (cases "scoreLe beta (scoreMax alpha (fst res))")
    case True
    then show ?thesis using num unf by simp
  next
    case False
    have "\<exists>k. fst (maximize ai g2 d currentColor aiColor rest (scoreMax alpha (fst res)) beta
                 (scoreMax maxScore (fst res))) = Number k"
      using "4.IH"(2)[OF refl refl g1_def res_def g2_def refl refl False] num by blast
    then show ?thesis using False unf by simp
  qed
next
  case (5 ai g d currentColor aiColor alpha beta minScore)
  then show ?case by simp
next
  case (6 ai g d currentColor aiColor move rest alpha beta minScore)
  define g1 where "g1 = (makeSimulatedMove g move)\<lparr>currentTurn := opponent currentColor\<rparr>"
  define res where "res = minimax ai g1 d alpha beta True aiColor"
  define g2 where "g2 = (snd res)\<lparr>board := copyBoard (board g),
     enPassantTarget := enPassantTarget g, currentTurn := currentColor\<rparr>"
  obtain n where n: "fst res = Number n"
    using "6.IH"(1)[OF refl refl g1_def] unfolding res_def by blast
  have num: "\<exists>k. scoreMin minScore (fst res) = Number k"
    using "6.prems" n scoreMin_Number by auto
  have unf: "minimize ai g d currentColor aiColor (move # rest) alpha beta minScore
     = (if scoreLe (scoreMin beta (fst res)) alpha then (scoreMin minScore (fst res), g2)
        else minimize ai g2 d currentColor aiColor rest alpha (scoreMin beta (fst res))
               (scoreMin minScore (fst res)))"
    by (simp add: Let_def res_def g1_def g2_def)
  show ?case
  proof (cases "scoreLe (scoreMin beta (fst res)) alpha")
    case True
    then show ?thesis using num unf by simp
  next
    case False
    have "\<exists>k. fst (minimize ai g2 d currentColor aiColor rest alpha (scoreMin beta (fst res))
                 (scoreMin minScore (fst res))) = Number k"
      using "6.IH"(2)[OF refl refl g1_def res_def g2_def refl refl False] num by blast
    then show ?thesis using False unf by simp
  qed
qed

lemma bestMoveLoop_unfold:
  "bestMoveLoop ai g color (move # rest) bestMove bestScore =
    (let res = minimax ai ((makeSimulatedMove g move)\<lparr>currentTurn := opponent color\<rparr>)
                 (nat (maxDepth ai - 1)) MinusInfinity PlusInfinity False color
     in if \<not> scoreLe (fst res) bestScore
        then bestMoveLoop ai g color rest (Some move) (fst res)
        else bestMoveLoop ai g color rest bestMove bestScore)"
proof -
  have "(snd (minimax ai ((makeSimulatedMove g move)\<lparr>currentTurn := opponent color\<rparr>)
                 (nat (maxDepth ai - 1)) MinusInfinity PlusInfinity False color))
          \<lparr>board := board g, enPassantTarget := enPassantTarget g, currentTurn := currentTurn g\<rparr>
        = g"
    by (simp only: minimax_frame(1) played_restore)
  then show ?thesis by (simp add: Let_def)
qed

lemma bestMoveLoop_frame: "snd (bestMoveLoop ai g color ms bestMove bestScore) = g"
proof (induction ms arbitrary: bestMove bestScore)
  case Nil
  show ?case by simp
next
  case (Cons m ms)
  show ?case unfolding bestMoveLoop_unfold Let_def by (simp add: Cons.IH)
qed

lemma bestMoveLoop_Some:
  "bestMove \<noteq> None \<Longrightarrow> fst (bestMoveLoop ai g color ms bestMove bestScore) \<noteq> None"
proof (induction ms arbitrary: bestMove bestScore)
  case Nil
  then show ?case by simp
next
  case (Cons m ms)
  show ?case unfolding bestMoveLoop_unfold Let_def
    using Cons.IH[of "Some m"] Cons.IH[OF Cons.prems] by simp
qed

lemma bestMoveLoop_first:
  assumes "ms \<noteq> []"
  shows "fst (bestMoveLoop ai g color ms None MinusInfinity) \<noteq> None"
proof -
  obtain m rest where ms: "ms = m # rest" using assms by (cases ms) auto
  obtain n where n: "fst (minimax ai ((makeSimulatedMove g m)\<lparr>currentTurn := opponent color\<rparr>)
                 (nat (maxDepth ai - 1)) MinusInfinity PlusInfinity False color) = Number n"
    using minimax_Number(1) by blast
  show ?thesis unfolding ms bestMoveLoop_unfold Let_def n
    using bestMoveLoop_Some[of "Some m"] by simp
qed

lemma sortMoves_Nil: "sortMoves ms g = [] \<longleftrightarrow> ms = []"
proof -
  have "length (sortMoves ms g) = length ms" by (simp add: sortMoves_def)
  then show ?thesis by (metis length_0_conv)
qed

lemma getBestMove_frame: "snd (getBestMove ai random1 random2 g) = g"
  by (simp add: getBestMove_def Let_def getAllValidMoves_eq bestMoveLoop_frame)

lemma getBestMove_None:
  assumes "0 \<le> random2" "random2 < 1"
  shows "fst (getBestMove ai random1 random2 g) = None
         \<longleftrightarrow> fst (getAllValidMoves g (currentTurn g)) = []"
proof (cases "fst (getAllValidMoves g (currentTurn g)) = []")
  case True
  then show ?thesis by (simp add: getBestMove_def Let_def)
next
  case False
  define moves where "moves = fst (getAllValidMoves g (currentTurn g))"
  have len: "0 < length moves" using False by (simp add: moves_def)
  have lo: "0 \<le> \<lfloor>random2 * real (length moves)\<rfloor>" using assms(1) by simp
  have "random2 * real (length moves) < real (length moves)" using assms(2) len by simp
  then have hi: "\<lfloor>random2 * real (length moves)\<rfloor> < int (length moves)"
    by linarith
  have search: "fst (bestMoveLoop ai (snd (getAllValidMoves g (currentTurn g))) (currentTurn g)
                  (sortMoves moves (snd (getAllValidMoves g (currentTurn g)))) None MinusInfinity)
                \<noteq> None"
    using False by (intro bestMoveLoop_first) (simp add: sortMoves_Nil moves_def)
  show ?thesis using False lo hi search
    by (simp add: getBestMove_def Let_def moves_def[symmetric])
qed

section \<open>The standard initial position\<close>

text \<open>
  C4. In the standard initial position with white to move, \<open>getAllValidMoves\<close> for white
  returns exactly 20 moves, 16 of them pawn moves and 4 knight moves, and \<open>getValidMoves\<close>
  for the white e-pawn on row 6, column 4 returns exactly two destinations: the square one
  step forward and the square two steps forward.
\<close>

theorem initial_position_moves:
  "(let moves = fst (getAllValidMoves reset White)
    in length moves = 20
       \<and> length (filter (\<lambda>m. ptype (vpiece m) = Pawn) moves) = 16
       \<and> length (filter (\<lambda>m. ptype (vpiece m) = Knight) moves) = 4)
   \<and> fst (getValidMoves reset 6 4)
       = [(plainMove 5 4)\<lparr>promotion := False\<rparr>, (plainMove 4 4)\<lparr>twoStep := True\<rparr>]
   \<and> currentTurn reset = White"
  by code_simp

section \<open>Rejected moves\<close>

text \<open>
  C1, as the claim states it, fails. \<open>makeMove\<close> looks the destination up in the stored list
  \<open>validMoves\<close>, whatever square that list was computed for. With the list of the white
  e-pawn stored (\<open>selectPiece\<close> on row 6, column 4), the call for the d-pawn from row 6,
  column 3 to row 4, column 4 is not in the legal-move set of the d-pawn, and yet it returns
  true and changes the state.
\<close>

theorem makeMove_foreign_list_counterexample:
  "(let g = selectPiece reset 6 4; res = makeMove g 6 3 4 4 None
    in getPiece g 6 3 \<noteq> None
       \<and> \<not> list_ex (hitsSquare 4 4) (fst (getValidMoves g 6 3))
       \<and> fst res = Inr True
       \<and> getPiece (snd res) 6 3 = None
       \<and> getPiece (snd res) 4 4 = Some \<lparr>ptype = Pawn, pcolor = White, hasMoved = True\<rparr>
       \<and> snd res \<noteq> g)"
  by code_simp

text \<open>
  C1, amended. \<open>makeMove\<close> returns false and leaves the whole state unchanged when no piece
  stands on the from-square or no entry of the stored list \<open>validMoves\<close> has the destination
  square. In particular, when the stored list is the result of \<open>getValidMoves\<close> for the
  from-square in the present state, a pair outside that legal-move set is rejected.
\<close>

theorem makeMove_rejects_unlisted:
  "(getPiece g fromRow fromCol = None \<or> find (hitsSquare toRow toCol) (validMoves g) = None
      \<longrightarrow> makeMove g fromRow fromCol toRow toCol promo = (Inr False, g))
   \<and> (validMoves g = fst (getValidMoves g fromRow fromCol)
        \<and> \<not> list_ex (hitsSquare toRow toCol) (fst (getValidMoves g fromRow fromCol))
      \<longrightarrow> makeMove g fromRow fromCol toRow toCol promo = (Inr False, g))"
proof (intro conjI impI)
  assume "getPiece g fromRow fromCol = None \<or> find (hitsSquare toRow toCol) (validMoves g) = None"
  then show "makeMove g fromRow fromCol toRow toCol promo = (Inr False, g)"
    by (rule makeMove_reject)
next
  assume a: "validMoves g = fst (getValidMoves g fromRow fromCol)
        \<and> \<not> list_ex (hitsSquare toRow toCol) (fst (getValidMoves g fromRow fromCol))"
  then have "find (hitsSquare toRow toCol) (validMoves g) = None"
    by (simp add: find_None_iff list_ex_iff)
  then show "makeMove g fromRow fromCol toRow toCol promo = (Inr False, g)"
    by (simp add: makeMove_reject)
qed

theorem makeMove_rejects_unlisted_witness:
  "(let g = selectPiece reset 6 4
    in validMoves g = fst (getValidMoves g 6 4)
       \<and> \<not> list_ex (hitsSquare 3 4) (fst (getValidMoves g 6 4))
       \<and> makeMove g 6 4 3 4 None = (Inr False, g))"
proof -
  have h: "(let g = selectPiece reset 6 4
    in validMoves g = fst (getValidMoves g 6 4)
       \<and> \<not> list_ex (hitsSquare 3 4) (fst (getValidMoves g 6 4)))"
    by code_simp
  from makeMove_rejects_unlisted[of "selectPiece reset 6 4" 6 4 3 4 None] h
  show ?thesis by (simp add: Let_def)
qed

section \<open>Check, checkmate and stalemate\<close>

lemma foolsMate_eval:
  "(let res = makeMove (selectPiece beforeFoolsMate 0 3) 0 3 4 7 None; g' = snd res
    in fst res = Inr True
       \<and> fst (getAllValidMoves g' White) = []
       \<and> gameOver g' \<and> winner g' = Some (Win Black) \<and> isCheck g' \<and> currentTurn g' = White)"
  by code_simp

lemma firstMove_eval:
  "(let g = selectPiece reset 6 5; res = makeMove g 6 5 5 5 None; g' = snd res
    in fst res = Inr True
       \<and> fst (getValidMoves g' 1 4) \<noteq> []
       \<and> \<not> gameOver g \<and> winner g = None
       \<and> \<not> gameOver g' \<and> winner g' = None \<and> \<not> isCheck g')"
  by code_simp

text \<open>
  C5. After every completed move the turn has passed to the other side and \<open>isCheck\<close> is
  what \<open>isInCheck\<close> gives for the new side to move in the new position. The legal moves of
  that side are looked for on every square: if no square has a valid move, \<open>gameOver\<close> is
  set, and the winner is the side that moved when the side to move is in check (checkmate)
  and a draw otherwise (stalemate); if some square has a valid move, \<open>gameOver\<close> and
  \<open>winner\<close> are left as they were before the move, so that a game that was not over is
  over after the move exactly when the side to move has no legal move. In particular,
  after 1. f3 e5 2. g4 Qh4 the game is over, black has won, and \<open>isCheck\<close> holds for white,
  the side to move.
\<close>

theorem terminal_detection:
  "(\<forall>g fromRow fromCol toRow toCol promo.
      fst (makeMove g fromRow fromCol toRow toCol promo) = Inr True \<longrightarrow>
      (let g' = snd (makeMove g fromRow fromCol toRow toCol promo);
           noMove = (\<forall>row col. fst (getValidMoves g' row col) = [])
       in currentTurn g' = opponent (currentTurn g)
          \<and> isCheck g' = isInCheck g' (currentTurn g')
          \<and> noMove = (fst (getAllValidMoves g' (currentTurn g')) = [])
          \<and> (noMove \<longrightarrow>
               gameOver g' \<and>
               winner g' = Some (if isCheck g' then Win (currentTurn g) else Draw))
          \<and> (\<not> noMove \<longrightarrow> gameOver g' = gameOver g \<and> winner g' = winner g)
          \<and> (\<not> gameOver g \<longrightarrow> gameOver g' = noMove)))
   \<and> (let g' = playMove beforeFoolsMate (0, 3) (4, 7) None
      in gameOver g' \<and> winner g' = Some (Win Black) \<and> isCheck g' \<and> currentTurn g' = White)"
proof (intro conjI allI impI)
  fix g fromRow fromCol toRow toCol promo
  assume a: "fst (makeMove g fromRow fromCol toRow toCol promo) = Inr True"
  define g' where "g' = snd (makeMove g fromRow fromCol toRow toCol promo)"
  define noMove where "noMove = (\<forall>row col. fst (getValidMoves g' row col) = [])"
  have ct: "currentTurn g' = opponent (currentTurn g)"
    and ic: "isCheck g' = isInCheck g' (currentTurn g')"
    unfolding g'_def using makeMove_terminal(1,2)[OF a] by simp_all
  have nm: "noMove = (fst (getAllValidMoves g' (currentTurn g')) = [])"
    unfolding noMove_def by (simp add: no_valid_moves_iff)
  have over: "gameOver g' \<and> winner g' = Some (if isCheck g' then Win (currentTurn g) else Draw)"
    if "noMove"
  proof -
    from that nm have "fst (getAllValidMoves g' (opponent (currentTurn g))) = []"
      by (simp add: ct)
    from makeMove_terminal(3)[OF a this[unfolded g'_def]] show ?thesis
      unfolding g'_def .
  qed
  have going: "gameOver g' = gameOver g \<and> winner g' = winner g" if "\<not> noMove"
  proof -
    from that nm have "fst (getAllValidMoves g' (opponent (currentTurn g))) \<noteq> []"
      by (simp add: ct)
    from makeMove_ongoing[OF a this[unfolded g'_def]] show ?thesis
      unfolding g'_def by blast
  qed
  have "currentTurn g' = opponent (currentTurn g)
          \<and> isCheck g' = isInCheck g' (currentTurn g')
          \<and> noMove = (fst (getAllValidMoves g' (currentTurn g')) = [])
          \<and> (noMove \<longrightarrow>
               gameOver g' \<and>
               winner g' = Some (if isCheck g' then Win (currentTurn g) else Draw))
          \<and> (\<not> noMove \<longrightarrow> gameOver g' = gameOver g \<and> winner g' = winner g)
          \<and> (\<not> gameOver g \<longrightarrow> gameOver g' = noMove)"
    using ct ic nm over going by blast
  then show "let g' = snd (makeMove g fromRow fromCol toRow toCol promo);
           noMove = (\<forall>row col. fst (getValidMoves g' row col) = [])
       in currentTurn g' = opponent (currentTurn g)
          \<and> isCheck g' = isInCheck g' (currentTurn g')
          \<and> noMove = (fst (getAllValidMoves g' (currentTurn g')) = [])
          \<and> (noMove \<longrightarrow>
               gameOver g' \<and>
               winner g' = Some (if isCheck g' then Win (currentTurn g) else Draw))
          \<and> (\<not> noMove \<longrightarrow> gameOver g' = gameOver g \<and> winner g' = winner g)
          \<and> (\<not> gameOver g \<longrightarrow> gameOver g' = noMove)"
    unfolding Let_def g'_def noMove_def .
next
  show "let g' = playMove beforeFoolsMate (0, 3) (4, 7) None
      in gameOver g' \<and> winner g' = Some (Win Black) \<and> isCheck g' \<and> currentTurn g' = White"
    using foolsMate_eval by (simp add: playMove_def Let_def)
qed

theorem terminal_detection_witness:
  "(let res = makeMove (selectPiece beforeFoolsMate 0 3) 0 3 4 7 None; g' = snd res
    in fst res = Inr True
       \<and> (\<forall>row col. fst (getValidMoves g' row col) = [])
       \<and> gameOver g'
       \<and> winner g' = Some (if isCheck g' then Win (currentTurn (selectPiece beforeFoolsMate 0 3))
                           else Draw))
   \<and> (let g = selectPiece reset 6 5; res = makeMove g 6 5 5 5 None; g' = snd res
      in fst res = Inr True
         \<and> \<not> (\<forall>row col. fst (getValidMoves g' row col) = [])
         \<and> \<not> gameOver g
         \<and> gameOver g' = gameOver g \<and> winner g' = winner g
         \<and> \<not> gameOver g')"
proof -
  define g1 where "g1 = selectPiece beforeFoolsMate 0 3"
  define g1' where "g1' = snd (makeMove g1 0 3 4 7 None)"
  define g2 where "g2 = selectPiece reset 6 5"
  define g2' where "g2' = snd (makeMove g2 6 5 5 5 None)"
  have t1: "fst (makeMove g1 0 3 4 7 None) = Inr True"
    and a1: "fst (getAllValidMoves g1' White) = []" and c1: "currentTurn g1' = White"
    using foolsMate_eval unfolding Let_def g1_def g1'_def by blast+
  have n1: "\<forall>row col. fst (getValidMoves g1' row col) = []"
    using a1 c1 no_valid_moves_iff[of g1'] by simp
  have t2: "fst (makeMove g2 6 5 5 5 None) = Inr True"
    and m2: "fst (getValidMoves g2' 1 4) \<noteq> []" and o2: "\<not> gameOver g2"
    using firstMove_eval unfolding Let_def g2_def g2'_def by blast+
  have n2: "\<not> (\<forall>row col. fst (getValidMoves g2' row col) = [])"
    using m2 by blast
  from terminal_detection have i1:
    "fst (makeMove g1 0 3 4 7 None) = Inr True \<longrightarrow>
       ((\<forall>row col. fst (getValidMoves g1' row col) = []) \<longrightarrow>
          gameOver g1' \<and>
          winner g1' = Some (if isCheck g1' then Win (currentTurn g1) else Draw))"
    unfolding Let_def g1'_def by blast
  from terminal_detection have i2:
    "fst (makeMove g2 6 5 5 5 None) = Inr True \<longrightarrow>
       (\<not> (\<forall>row col. fst (getValidMoves g2' row col) = []) \<longrightarrow>
          gameOver g2' = gameOver g2 \<and> winner g2' = winner g2)"
    unfolding Let_def g2'_def by blast
  from i1 t1 n1 have r1: "gameOver g1'"
    "winner g1' = Some (if isCheck g1' then Win (currentTurn g1) else Draw)" by blast+
  from i2 t2 n2 have r2: "gameOver g2' = gameOver g2" "winner g2' = winner g2" by blast+
  from r2(1) o2 have o2': "\<not> gameOver g2'" by simp
  show ?thesis
    unfolding Let_def g1_def[symmetric] g1'_def[symmetric] g2_def[symmetric] g2'_def[symmetric]
    using t1 n1 r1 t2 n2 o2 r2 o2' by blast
qed

section \<open>Promotion\<close>

text \<open>
  C10. A legal move, made with the list of \<open>getValidMoves\<close> stored, succeeds whatever the
  promotion choice is. Without a choice the moved piece itself stands on the destination
  afterwards (for a move flagged as a promotion: a pawn on its promotion rank); the piece is
  replaced by a new piece of the chosen type only when the move is flagged as a promotion
  and a choice is supplied.
\<close>

theorem promotion_needs_choice:
  assumes "wfBoard (board g)"
    and "validMoves g = fst (getValidMoves g fromRow fromCol)"
    and "getPiece g fromRow fromCol = Some piece"
    and "find (hitsSquare toRow toCol) (validMoves g) = Some moveInfo"
  shows "fst (makeMove g fromRow fromCol toRow toCol promo) = Inr True
    \<and> (promo = None \<longrightarrow>
         getPiece (snd (makeMove g fromRow fromCol toRow toCol promo)) toRow toCol
           = Some (piece\<lparr>hasMoved := True\<rparr>))
    \<and> (\<forall>t. promo = Some t \<longrightarrow>
         getPiece (snd (makeMove g fromRow fromCol toRow toCol promo)) toRow toCol
           = Some (if promotion moveInfo then \<lparr>ptype = t, pcolor = pcolor piece, hasMoved = True\<rparr>
                   else piece\<lparr>hasMoved := True\<rparr>))
    \<and> (promotion moveInfo \<longrightarrow>
         ptype piece = Pawn \<and> toRow = (if pcolor piece = White then 0 else 7))"
proof -
  note lf = legal_found[OF assms(2-4)]
  note md = makeMove_legal_destination[OF assms, of promo]
  have "promotion moveInfo \<longrightarrow> ptype piece = Pawn \<and> toRow = (if pcolor piece = White then 0 else 7)"
    using rawMove_promotion(1,7)[OF lf(1)] lf(3) by (auto simp: promotionRow_def)
  with md show ?thesis
    by (auto simp: placedPiece_def createPiece_def)
qed

theorem promotion_needs_choice_witness:
  "(let g = selectPiece promotionPosition 1 0; res = makeMove g 1 0 0 0 None
    in wfBoard (board g)
       \<and> validMoves g = fst (getValidMoves g 1 0)
       \<and> getPiece g 1 0 = Some (movedPiece Pawn White)
       \<and> find (hitsSquare 0 0) (validMoves g) = Some ((plainMove 0 0)\<lparr>promotion := True\<rparr>)
       \<and> fst res = Inr True
       \<and> getPiece (snd res) 0 0 = Some ((movedPiece Pawn White)\<lparr>hasMoved := True\<rparr>))"
proof -
  define g where "g = selectPiece promotionPosition 1 0"
  have h: "wfBoard (board g) \<and> validMoves g = fst (getValidMoves g 1 0)
       \<and> getPiece g 1 0 = Some (movedPiece Pawn White)
       \<and> find (hitsSquare 0 0) (validMoves g) = Some ((plainMove 0 0)\<lparr>promotion := True\<rparr>)"
    unfolding g_def by code_simp
  from h have h1: "wfBoard (board g)" and h2: "validMoves g = fst (getValidMoves g 1 0)"
    and h3: "getPiece g 1 0 = Some (movedPiece Pawn White)"
    and h4: "find (hitsSquare 0 0) (validMoves g) = Some ((plainMove 0 0)\<lparr>promotion := True\<rparr>)"
    by blast+
  note t = promotion_needs_choice[OF h1 h2 h3 h4, of None]
  show ?thesis
    unfolding Let_def using h[unfolded g_def] t[unfolded g_def] by blast
qed

section \<open>Pawn attacks and pawn captures\<close>

text \<open>
  C8. A pawn attacks every square of the board that lies diagonally forward of it, whether
  or not a piece stands there: \<open>isSquareAttacked\<close> reports such a square as attacked by the
  pawn's color. A move of the pawn to such a square is generated exactly when an enemy
  piece stands on it or it is the en-passant target, and then as a capture. The two differ
  in this occupancy condition only.
\<close>

theorem pawn_attack_and_capture:
  assumes "getPiece g r c = Some p" "ptype p = Pawn" "dc = - 1 \<or> dc = 1"
  shows "(onBoard (r + direction p) (c + dc) \<longrightarrow>
            isSquareAttacked g (r + direction p) (c + dc) (pcolor p))
    \<and> (list_ex (hitsSquare (r + direction p) (c + dc)) (getRawMoves g r c p False) \<longleftrightarrow>
         onBoard (r + direction p) (c + dc) \<and>
         (enemyAt g p (r + direction p) (c + dc)
          \<or> enPassantTarget g = Some (r + direction p, c + dc)))
    \<and> (\<forall>m \<in> set (getRawMoves g r c p False).
          mcol m = c + dc \<longrightarrow> capture m \<and> mrow m = r + direction p)"
  using pawn_attacks_diagonal[OF assms] pawn_diagonal_move_iff[OF assms(2,3), of r c g]
    pawn_diagonal_move_capture[OF assms(2,3), of _ g r c]
  by blast

theorem pawn_attack_and_capture_witness:
  "getPiece reset 6 4 = Some (createPiece Pawn White)
   \<and> getPiece reset 5 3 = None
   \<and> isSquareAttacked reset 5 3 White
   \<and> \<not> list_ex (hitsSquare 5 3) (getRawMoves reset 6 4 (createPiece Pawn White) False)"
proof -
  have h: "getPiece reset 6 4 = Some (createPiece Pawn White) \<and> getPiece reset 5 3 = None
    \<and> enPassantTarget reset = None"
    by code_simp
  have d: "direction (createPiece Pawn White) = - 1" "ptype (createPiece Pawn White) = Pawn"
    "pcolor (createPiece Pawn White) = White" "onBoard 5 3"
    by (simp_all add: direction_def createPiece_def onBoard_def)
  from h have e: "\<not> enemyAt reset (createPiece Pawn White) 5 3"
    by (simp add: enemyAt_def)
  from pawn_attack_and_capture[of reset 6 4 "createPiece Pawn White" "- 1"] h d e
  show ?thesis by simp
qed

section \<open>En passant\<close>

lemma enPassant_eval:
  "(let g = selectPiece enPassantPosition 3 4; res = makeMove g 3 4 2 3 None
    in wfBoard (board g)
       \<and> validMoves g = fst (getValidMoves g 3 4)
       \<and> getPiece g 3 4 = Some (movedPiece Pawn White)
       \<and> getPiece g 3 3 = Some (movedPiece Pawn Black)
       \<and> getPiece g 2 3 = None
       \<and> enPassantTarget g = Some (2, 3)
       \<and> find (hitsSquare 2 3) (validMoves g)
           = Some ((plainMove 2 3)\<lparr>enPassant := True, capture := True\<rparr>)
       \<and> getPiece (snd res) 3 3 = None
       \<and> getPiece (snd res) 2 3 = Some (movedPiece Pawn White)
       \<and> capturedWhite (snd res) = [movedPiece Pawn Black])"
  by code_simp

text \<open>
  C6. A move flagged as en passant is in the legal-move set only while the en-passant target
  is set, and it goes to that target. Every legal move sets the target to the square a pawn
  passed over when it is a two-square pawn advance, and clears it otherwise, so that
  en passant is offered in the resulting position only if the move just made was such an
  advance. A legal en-passant capture removes the pawn that stands beside the capturing
  pawn, on the capturing pawn's own row and in the destination's column, and not a piece
  on the destination. After 1. e2-e4 a7-a6 2. e4-e5 d7-d5 the capture e5xd6 is offered and,
  applied, removes the black pawn from d5.
\<close>

theorem en_passant:
  "(\<forall>g r c m. m \<in> set (fst (getValidMoves g r c)) \<and> enPassant m \<longrightarrow>
       enPassantTarget g = Some (mrow m, mcol m)
       \<and> (\<exists>p. getPiece g r c = Some p \<and> ptype p = Pawn \<and> mrow m = r + direction p
              \<and> (mcol m = c - 1 \<or> mcol m = c + 1)))
   \<and> (\<forall>g fromRow fromCol toRow toCol promo piece mi.
        validMoves g = fst (getValidMoves g fromRow fromCol)
        \<and> getPiece g fromRow fromCol = Some piece
        \<and> find (hitsSquare toRow toCol) (validMoves g) = Some mi \<longrightarrow>
        (let g' = snd (makeMove g fromRow fromCol toRow toCol promo)
         in enPassantTarget g'
              = (if twoStep mi then Some (fromRow + direction piece, fromCol) else None)
            \<and> (twoStep mi \<longrightarrow> ptype piece = Pawn \<and> toRow = fromRow + 2 * direction piece
                  \<and> toCol = fromCol \<and> fromRow = startRow piece)
            \<and> (\<forall>r c m. m \<in> set (fst (getValidMoves g' r c)) \<and> enPassant m \<longrightarrow> twoStep mi)
            \<and> (wfBoard (board g) \<and> enPassant mi \<longrightarrow>
                  toRow = fromRow + direction piece
                  \<and> (toCol = fromCol - 1 \<or> toCol = fromCol + 1)
                  \<and> getPiece g' fromRow toCol = None
                  \<and> getPiece g' toRow toCol = Some (piece\<lparr>hasMoved := True\<rparr>)
                  \<and> captured (last (moveHistory g')) = getPiece g fromRow toCol)))
   \<and> (let g = enPassantPosition; g' = playMove g (3, 4) (2, 3) None
      in enPassantTarget g = Some (2, 3)
         \<and> list_ex (\<lambda>m. hitsSquare 2 3 m \<and> enPassant m) (fst (getValidMoves g 3 4))
         \<and> getPiece g 3 3 = Some (movedPiece Pawn Black)
         \<and> getPiece g' 3 3 = None
         \<and> getPiece g' 2 3 = Some (movedPiece Pawn White)
         \<and> capturedWhite g' = [movedPiece Pawn Black])"
proof (intro conjI allI impI)
  fix g r c m
  assume "m \<in> set (fst (getValidMoves g r c)) \<and> enPassant m"
  then show "enPassantTarget g = Some (mrow m, mcol m)"
    and "\<exists>p. getPiece g r c = Some p \<and> ptype p = Pawn \<and> mrow m = r + direction p
              \<and> (mcol m = c - 1 \<or> mcol m = c + 1)"
    using legalMove_enPassant[of m g r c] by simp_all
next
  fix g fromRow fromCol toRow toCol promo piece mi
  assume a: "validMoves g = fst (getValidMoves g fromRow fromCol)
        \<and> getPiece g fromRow fromCol = Some piece
        \<and> find (hitsSquare toRow toCol) (validMoves g) = Some mi"
  then have l: "validMoves g = fst (getValidMoves g fromRow fromCol)"
    "getPiece g fromRow fromCol = Some piece"
    "find (hitsSquare toRow toCol) (validMoves g) = Some mi" by blast+
  note t1 = makeMove_legal_enPassantTarget(1)[OF l, where promo = promo]
  note t2 = makeMove_legal_enPassantTarget(2)[OF l]
  note e1 = makeMove_legal_enPassant_capture(1)[OF _ l, where promo = promo]
  note e2 = makeMove_legal_enPassant_capture(2)[OF _ l, where promo = promo]
  note e3 = makeMove_legal_enPassant_capture(3)[OF _ l]
  note e4 = makeMove_legal_enPassant_capture(4)[OF _ l]
  note e7 = makeMove_legal_enPassant_capture(7)[OF _ l, where promo = promo]
  have later: "\<forall>r c m. m \<in> set (fst (getValidMoves
        (snd (makeMove g fromRow fromCol toRow toCol promo)) r c)) \<and> enPassant m \<longrightarrow> twoStep mi"
  proof (intro allI impI)
    fix r c m
    assume "m \<in> set (fst (getValidMoves
        (snd (makeMove g fromRow fromCol toRow toCol promo)) r c)) \<and> enPassant m"
    then have "enPassantTarget (snd (makeMove g fromRow fromCol toRow toCol promo))
                = Some (mrow m, mcol m)"
      using legalMove_enPassant by blast
    with t1 show "twoStep mi" by (simp split: if_splits)
  qed
  show "let g' = snd (makeMove g fromRow fromCol toRow toCol promo)
         in enPassantTarget g'
              = (if twoStep mi then Some (fromRow + direction piece, fromCol) else None)
            \<and> (twoStep mi \<longrightarrow> ptype piece = Pawn \<and> toRow = fromRow + 2 * direction piece
                  \<and> toCol = fromCol \<and> fromRow = startRow piece)
            \<and> (\<forall>r c m. m \<in> set (fst (getValidMoves g' r c)) \<and> enPassant m \<longrightarrow> twoStep mi)
            \<and> (wfBoard (board g) \<and> enPassant mi \<longrightarrow>
                  toRow = fromRow + direction piece
                  \<and> (toCol = fromCol - 1 \<or> toCol = fromCol + 1)
                  \<and> getPiece g' fromRow toCol = None
                  \<and> getPiece g' toRow toCol = Some (piece\<lparr>hasMoved := True\<rparr>)
                  \<and> captured (last (moveHistory g')) = getPiece g fromRow toCol)"
    unfolding Let_def
  proof (intro conjI)
    show "enPassantTarget (snd (makeMove g fromRow fromCol toRow toCol promo))
            = (if twoStep mi then Some (fromRow + direction piece, fromCol) else None)"
      by (rule t1)
    show "twoStep mi \<longrightarrow> ptype piece = Pawn \<and> toRow = fromRow + 2 * direction piece
                  \<and> toCol = fromCol \<and> fromRow = startRow piece"
      using t2 by blast
    show "\<forall>r c m. m \<in> set (fst (getValidMoves
        (snd (makeMove g fromRow fromCol toRow toCol promo)) r c)) \<and> enPassant m \<longrightarrow> twoStep mi"
      by (rule later)
    show "wfBoard (board g) \<and> enPassant mi \<longrightarrow>
                  toRow = fromRow + direction piece
                  \<and> (toCol = fromCol - 1 \<or> toCol = fromCol + 1)
                  \<and> getPiece (snd (makeMove g fromRow fromCol toRow toCol promo)) fromRow toCol = None
                  \<and> getPiece (snd (makeMove g fromRow fromCol toRow toCol promo)) toRow toCol
                       = Some (piece\<lparr>hasMoved := True\<rparr>)
                  \<and> captured (last (moveHistory (snd (makeMove g fromRow fromCol toRow toCol promo))))
                       = getPiece g fromRow toCol"
      using e1 e2 e3 e4 e7 by blast
  qed
next
  have "let g = enPassantPosition
      in enPassantTarget g = Some (2, 3)
         \<and> list_ex (\<lambda>m. hitsSquare 2 3 m \<and> enPassant m) (fst (getValidMoves g 3 4))"
    by code_simp
  then show "let g = enPassantPosition; g' = playMove g (3, 4) (2, 3) None
      in enPassantTarget g = Some (2, 3)
         \<and> list_ex (\<lambda>m. hitsSquare 2 3 m \<and> enPassant m) (fst (getValidMoves g 3 4))
         \<and> getPiece g 3 3 = Some (movedPiece Pawn Black)
         \<and> getPiece g' 3 3 = None
         \<and> getPiece g' 2 3 = Some (movedPiece Pawn White)
         \<and> capturedWhite g' = [movedPiece Pawn Black]"
    using enPassant_eval
    by (simp add: Let_def playMove_def selectPiece_def getValidMoves_eq getPiece_def)
qed

theorem en_passant_witness:
  "(let g = selectPiece enPassantPosition 3 4; g' = snd (makeMove g 3 4 2 3 None)
    in wfBoard (board g)
       \<and> validMoves g = fst (getValidMoves g 3 4)
       \<and> getPiece g 3 4 = Some (movedPiece Pawn White)
       \<and> find (hitsSquare 2 3) (validMoves g)
           = Some ((plainMove 2 3)\<lparr>enPassant := True, capture := True\<rparr>)
       \<and> enPassantTarget g' = None
       \<and> getPiece g' 3 3 = None
       \<and> captured (last (moveHistory g')) = getPiece g 3 3)"
proof -
  define g where "g = selectPiece enPassantPosition 3 4"
  have h: "wfBoard (board g)
       \<and> validMoves g = fst (getValidMoves g 3 4)
       \<and> getPiece g 3 4 = Some (movedPiece Pawn White)
       \<and> find (hitsSquare 2 3) (validMoves g)
           = Some ((plainMove 2 3)\<lparr>enPassant := True, capture := True\<rparr>)"
    using enPassant_eval unfolding g_def Let_def by blast
  have f: "enPassant ((plainMove 2 3)\<lparr>enPassant := True, capture := True\<rparr>)"
    "\<not> twoStep ((plainMove 2 3)\<lparr>enPassant := True, capture := True\<rparr>)"
    by simp_all
  from en_passant have
    "validMoves g = fst (getValidMoves g 3 4)
        \<and> getPiece g 3 4 = Some (movedPiece Pawn White)
        \<and> find (hitsSquare 2 3) (validMoves g)
            = Some ((plainMove 2 3)\<lparr>enPassant := True, capture := True\<rparr>) \<longrightarrow>
        (let g' = snd (makeMove g 3 4 2 3 None)
         in enPassantTarget g'
              = (if twoStep ((plainMove 2 3)\<lparr>enPassant := True, capture := True\<rparr>)
                 then Some (3 + direction (movedPiece Pawn White), 4) else None)
            \<and> (wfBoard (board g) \<and> enPassant ((plainMove 2 3)\<lparr>enPassant := True, capture := True\<rparr>) \<longrightarrow>
                  getPiece g' 3 3 = None
                  \<and> captured (last (moveHistory g')) = getPiece g 3 3))"
    unfolding Let_def by blast
  with h have
    "enPassantTarget (snd (makeMove g 3 4 2 3 None))
              = (if twoStep ((plainMove 2 3)\<lparr>enPassant := True, capture := True\<rparr>)
                 then Some (3 + direction (movedPiece Pawn White), 4) else None)
     \<and> (wfBoard (board g) \<and> enPassant ((plainMove 2 3)\<lparr>enPassant := True, capture := True\<rparr>) \<longrightarrow>
                  getPiece (snd (makeMove g 3 4 2 3 None)) 3 3 = None
                  \<and> captured (last (moveHistory (snd (makeMove g 3 4 2 3 None)))) = getPiece g 3 3)"
    unfolding Let_def by blast
  with f h have "enPassantTarget (snd (makeMove g 3 4 2 3 None)) = None
     \<and> getPiece (snd (makeMove g 3 4 2 3 None)) 3 3 = None
     \<and> captured (last (moveHistory (snd (makeMove g 3 4 2 3 None)))) = getPiece g 3 3"
    by presburger
  with h show ?thesis
    unfolding Let_def g_def by blast
qed

section \<open>Castling\<close>

lemma castling_eval:
  "(let g = castlingPosition; moves = fst (getValidMoves g 7 4);
        g1 = snd (makeMove (selectPiece g 7 4) 7 4 7 3 None)
    in wfBoard (board g)
       \<and> map castling (filter (\<lambda>m. castling m \<noteq> None) moves) = [Some Queenside]
       \<and> isSquareAttacked g 7 5 Black
       \<and> unmoved g 7 4 \<and> unmoved g 7 7 \<and> getPiece g 7 5 = None \<and> getPiece g 7 6 = None
       \<and> \<not> isInCheck g White
       \<and> validMoves (selectPiece g 7 4) = fst (getValidMoves (selectPiece g 7 4) 7 4)
       \<and> getPiece (selectPiece g 7 4) 7 4 = Some (createPiece King White)
       \<and> find (hitsSquare 7 3) (validMoves (selectPiece g 7 4))
            = Some ((plainMove 7 3)\<lparr>capture := False\<rparr>)
       \<and> \<not> unmoved g1 7 4
       \<and> \<not> list_ex (\<lambda>m. castling m \<noteq> None) (fst (getValidMoves g1 7 4)))"
  by code_simp

text \<open>
  C7. \<open>getValidMoves\<close> offers a castling move only for a king of the side to move that has
  never moved and is not in check, with a rook that has never moved on the corner of the
  king's row, the squares between them empty (columns 5 and 6, or 1, 2 and 3), and neither
  the square the king crosses nor the one it lands on attacked by the opponent. A square
  that is empty or holds a moved piece never holds an unmoved piece again, whatever moves
  are made; a legal move leaves its from-square empty and a moved piece on its destination.
  Hence once the king has left its square, or the rook its corner, castling with them is
  never offered again. In the position with white king e1, rooks a1 and h1 and a black rook
  on f8, kingside castling is absent from \<open>getValidMoves\<close>, and queenside castling is offered.
\<close>

theorem castling_conditions:
  "(\<forall>g r c m side. m \<in> set (fst (getValidMoves g r c)) \<and> castling m = Some side \<longrightarrow>
      (\<exists>king. getPiece g r c = Some king \<and> ptype king = King \<and> pcolor king = currentTurn g
        \<and> \<not> hasMoved king \<and> \<not> isInCheck g (pcolor king) \<and> mrow m = r
        \<and> (side = Kingside \<longrightarrow> mcol m = 6
              \<and> (\<exists>rook. getPiece g r 7 = Some rook \<and> ptype rook = Rook \<and> \<not> hasMoved rook)
              \<and> getPiece g r 5 = None \<and> getPiece g r 6 = None
              \<and> \<not> isSquareAttacked g r 5 (opponent (pcolor king))
              \<and> \<not> isSquareAttacked g r 6 (opponent (pcolor king)))
        \<and> (side = Queenside \<longrightarrow> mcol m = 2
              \<and> (\<exists>rook. getPiece g r 0 = Some rook \<and> ptype rook = Rook \<and> \<not> hasMoved rook)
              \<and> getPiece g r 1 = None \<and> getPiece g r 2 = None \<and> getPiece g r 3 = None
              \<and> \<not> isSquareAttacked g r 2 (opponent (pcolor king))
              \<and> \<not> isSquareAttacked g r 3 (opponent (pcolor king)))))
   \<and> (\<forall>g fromRow fromCol toRow toCol promo piece mi.
        wfBoard (board g) \<and> validMoves g = fst (getValidMoves g fromRow fromCol)
        \<and> getPiece g fromRow fromCol = Some piece
        \<and> find (hitsSquare toRow toCol) (validMoves g) = Some mi \<longrightarrow>
        \<not> unmoved (snd (makeMove g fromRow fromCol toRow toCol promo)) fromRow fromCol
        \<and> \<not> unmoved (snd (makeMove g fromRow fromCol toRow toCol promo)) toRow toCol)
   \<and> (\<forall>g g' r c. wfBoard (board g) \<and> playedOn g g' \<and> \<not> unmoved g r c \<longrightarrow>
        \<not> unmoved g' r c
        \<and> \<not> list_ex (\<lambda>m. castling m \<noteq> None) (fst (getValidMoves g' r c))
        \<and> (c = 7 \<longrightarrow> (\<forall>k. \<not> list_ex (\<lambda>m. castling m = Some Kingside) (fst (getValidMoves g' r k))))
        \<and> (c = 0 \<longrightarrow> (\<forall>k. \<not> list_ex (\<lambda>m. castling m = Some Queenside) (fst (getValidMoves g' r k)))))
   \<and> (let g = castlingPosition; moves = fst (getValidMoves g 7 4)
      in unmoved g 7 4 \<and> unmoved g 7 7 \<and> getPiece g 7 5 = None \<and> getPiece g 7 6 = None
         \<and> \<not> isInCheck g White \<and> isSquareAttacked g 7 5 Black
         \<and> map castling (filter (\<lambda>m. castling m \<noteq> None) moves) = [Some Queenside])"
proof (intro conjI allI impI)
  fix g r c m side
  assume "m \<in> set (fst (getValidMoves g r c)) \<and> castling m = Some side"
  then show "\<exists>king. getPiece g r c = Some king \<and> ptype king = King \<and> pcolor king = currentTurn g
        \<and> \<not> hasMoved king \<and> \<not> isInCheck g (pcolor king) \<and> mrow m = r
        \<and> (side = Kingside \<longrightarrow> mcol m = 6
              \<and> (\<exists>rook. getPiece g r 7 = Some rook \<and> ptype rook = Rook \<and> \<not> hasMoved rook)
              \<and> getPiece g r 5 = None \<and> getPiece g r 6 = None
              \<and> \<not> isSquareAttacked g r 5 (opponent (pcolor king))
              \<and> \<not> isSquareAttacked g r 6 (opponent (pcolor king)))
        \<and> (side = Queenside \<longrightarrow> mcol m = 2
              \<and> (\<exists>rook. getPiece g r 0 = Some rook \<and> ptype rook = Rook \<and> \<not> hasMoved rook)
              \<and> getPiece g r 1 = None \<and> getPiece g r 2 = None \<and> getPiece g r 3 = None
              \<and> \<not> isSquareAttacked g r 2 (opponent (pcolor king))
              \<and> \<not> isSquareAttacked g r 3 (opponent (pcolor king)))"
    using legalMove_castling[of m g r c side] by blast
next
  fix g fromRow fromCol toRow toCol promo piece mi
  assume a: "wfBoard (board g) \<and> validMoves g = fst (getValidMoves g fromRow fromCol)
        \<and> getPiece g fromRow fromCol = Some piece
        \<and> find (hitsSquare toRow toCol) (validMoves g) = Some mi"
  then have l: "wfBoard (board g)" "validMoves g = fst (getValidMoves g fromRow fromCol)"
    "getPiece g fromRow fromCol = Some piece"
    "find (hitsSquare toRow toCol) (validMoves g) = Some mi" by blast+
  note d = makeMove_legal_destination[OF l, where promo = promo]
  show "\<not> unmoved (snd (makeMove g fromRow fromCol toRow toCol promo)) fromRow fromCol"
    using d(3) by (simp add: unmoved_def)
  show "\<not> unmoved (snd (makeMove g fromRow fromCol toRow toCol promo)) toRow toCol"
    using d(2) by (simp add: unmoved_def placedPiece_def split: option.splits)
next
  fix g g' r c
  assume a: "wfBoard (board g) \<and> playedOn g g' \<and> \<not> unmoved g r c"
  then have nu: "\<not> unmoved g' r c"
    using playedOn_unmoved[of g g' r c] by blast
  then show "\<not> unmoved g' r c" .
  show "\<not> list_ex (\<lambda>m. castling m \<noteq> None) (fst (getValidMoves g' r c))"
  proof
    assume "list_ex (\<lambda>m. castling m \<noteq> None) (fst (getValidMoves g' r c))"
    then obtain m side where "m \<in> set (fst (getValidMoves g' r c))" "castling m = Some side"
      by (auto simp: list_ex_iff)
    from legalMove_castling[OF this] have "unmoved g' r c"
      by (auto simp: unmoved_def)
    with nu show False by simp
  qed
  {
    fix k
    assume c7: "c = 7"
    show "\<not> list_ex (\<lambda>m. castling m = Some Kingside) (fst (getValidMoves g' r k))"
    proof
      assume "list_ex (\<lambda>m. castling m = Some Kingside) (fst (getValidMoves g' r k))"
      then obtain m where "m \<in> set (fst (getValidMoves g' r k))" "castling m = Some Kingside"
        by (auto simp: list_ex_iff)
      from legalMove_castling[OF this] have "unmoved g' r 7"
        by (auto simp: unmoved_def)
      with nu c7 show False by simp
    qed
  }
  {
    fix k
    assume c0: "c = 0"
    show "\<not> list_ex (\<lambda>m. castling m = Some Queenside) (fst (getValidMoves g' r k))"
    proof
      assume "list_ex (\<lambda>m. castling m = Some Queenside) (fst (getValidMoves g' r k))"
      then obtain m where "m \<in> set (fst (getValidMoves g' r k))" "castling m = Some Queenside"
        by (auto simp: list_ex_iff)
      from legalMove_castling[OF this] have "unmoved g' r 0"
        by (auto simp: unmoved_def)
      with nu c0 show False by simp
    qed
  }
next
  show "let g = castlingPosition; moves = fst (getValidMoves g 7 4)
      in unmoved g 7 4 \<and> unmoved g 7 7 \<and> getPiece g 7 5 = None \<and> getPiece g 7 6 = None
         \<and> \<not> isInCheck g White \<and> isSquareAttacked g 7 5 Black
         \<and> map castling (filter (\<lambda>m. castling m \<noteq> None) moves) = [Some Queenside]"
    using castling_eval unfolding Let_def by blast
qed

theorem castling_conditions_witness:
  "(let g = selectPiece castlingPosition 7 4; g1 = snd (makeMove g 7 4 7 3 None)
    in wfBoard (board g)
       \<and> validMoves g = fst (getValidMoves g 7 4)
       \<and> getPiece g 7 4 = Some (createPiece King White)
       \<and> find (hitsSquare 7 3) (validMoves g) = Some ((plainMove 7 3)\<lparr>capture := False\<rparr>)
       \<and> playedOn g1 g1
       \<and> \<not> unmoved g1 7 4
       \<and> \<not> list_ex (\<lambda>m. castling m \<noteq> None) (fst (getValidMoves g1 7 4)))"
proof -
  define g where "g = selectPiece castlingPosition 7 4"
  define g1 where "g1 = snd (makeMove g 7 4 7 3 None)"
  have wf0: "wfBoard (board castlingPosition)"
    using castling_eval unfolding Let_def by blast
  have wf: "wfBoard (board g)"
    using wf0 by (simp add: g_def selectPiece_def getValidMoves_eq)
  have h: "validMoves g = fst (getValidMoves g 7 4)"
    "getPiece g 7 4 = Some (createPiece King White)"
    "find (hitsSquare 7 3) (validMoves g) = Some ((plainMove 7 3)\<lparr>capture := False\<rparr>)"
    using castling_eval unfolding Let_def g_def by blast+
  from castling_conditions have
    "wfBoard (board g) \<and> validMoves g = fst (getValidMoves g 7 4)
        \<and> getPiece g 7 4 = Some (createPiece King White)
        \<and> find (hitsSquare 7 3) (validMoves g) = Some ((plainMove 7 3)\<lparr>capture := False\<rparr>) \<longrightarrow>
        \<not> unmoved (snd (makeMove g 7 4 7 3 None)) 7 4"
    by blast
  with wf h have nu: "\<not> unmoved g1 7 4" unfolding g1_def by blast
  have wf1: "wfBoard (board g1)" unfolding g1_def using wf by (rule wfBoard_makeMove)
  have po: "playedOn g1 g1" by (rule playedOn_refl)
  from castling_conditions have
    "wfBoard (board g1) \<and> playedOn g1 g1 \<and> \<not> unmoved g1 7 4 \<longrightarrow>
        \<not> list_ex (\<lambda>m. castling m \<noteq> None) (fst (getValidMoves g1 7 4))"
    by blast
  with wf1 po nu have "\<not> list_ex (\<lambda>m. castling m \<noteq> None) (fst (getValidMoves g1 7 4))"
    by blast
  with wf h po nu show ?thesis
    unfolding Let_def g1_def g_def by blast
qed

section \<open>Making and undoing a move\<close>

text \<open>
  C2. In every reachable state, a legal move made by \<open>makeMove\<close> succeeds, and
  \<open>undoMove\<close> right after it succeeds and gives back the state as it was: the board, the
  side to move, the en-passant target, \<open>isCheck\<close>, \<open>gameOver\<close> and \<open>winner\<close>, and with them
  the history, the captured lists and \<open>lastMove\<close>. The move may be of any kind, a promotion
  with or without a choice, a castling or an en-passant capture. With an empty history
  \<open>undoMove\<close> returns false and changes nothing.
\<close>

theorem make_undo_round_trip:
  "(\<forall>g fromRow fromCol toRow toCol promo piece mi.
      reachable g \<and> validMoves g = fst (getValidMoves g fromRow fromCol)
      \<and> getPiece g fromRow fromCol = Some piece
      \<and> find (hitsSquare toRow toCol) (validMoves g) = Some mi \<longrightarrow>
      fst (makeMove g fromRow fromCol toRow toCol promo) = Inr True
      \<and> undoMove (snd (makeMove g fromRow fromCol toRow toCol promo)) = (Inr True, g))
   \<and> (\<forall>g. moveHistory g = [] \<longrightarrow> undoMove g = (Inr False, g))"
proof (intro conjI allI impI)
  fix g fromRow fromCol toRow toCol promo piece mi
  assume a: "reachable g \<and> validMoves g = fst (getValidMoves g fromRow fromCol)
      \<and> getPiece g fromRow fromCol = Some piece
      \<and> find (hitsSquare toRow toCol) (validMoves g) = Some mi"
  then have r: "reachable g" and vm: "validMoves g = fst (getValidMoves g fromRow fromCol)"
    and p: "getPiece g fromRow fromCol = Some piece"
    and f: "find (hitsSquare toRow toCol) (validMoves g) = Some mi" by blast+
  note c = reachable_consistent[OF r]
  show "fst (makeMove g fromRow fromCol toRow toCol promo) = Inr True"
    by (rule makeMove_legal[OF vm p f, of promo]) simp
  show "undoMove (snd (makeMove g fromRow fromCol toRow toCol promo)) = (Inr True, g)"
    by (rule make_undo_state[OF c vm p f])
next
  fix g :: game
  assume "moveHistory g = []"
  then show "undoMove g = (Inr False, g)" by (rule undoMove_empty)
qed

theorem make_undo_round_trip_witness:
  "(let g = selectPiece enPassantPosition 3 4
    in reachable g
       \<and> validMoves g = fst (getValidMoves g 3 4)
       \<and> getPiece g 3 4 = Some (movedPiece Pawn White)
       \<and> find (hitsSquare 2 3) (validMoves g)
           = Some ((plainMove 2 3)\<lparr>enPassant := True, capture := True\<rparr>)
       \<and> fst (makeMove g 3 4 2 3 None) = Inr True
       \<and> undoMove (snd (makeMove g 3 4 2 3 None)) = (Inr True, g)
       \<and> moveHistory reset = [] \<and> undoMove reset = (Inr False, reset))"
proof -
  define g where "g = selectPiece enPassantPosition 3 4"
  have r: "reachable g"
    unfolding g_def enPassantPosition_def
    by (intro reachable_select reachable_playMove reachable_reset)
  have h: "validMoves g = fst (getValidMoves g 3 4)"
    "getPiece g 3 4 = Some (movedPiece Pawn White)"
    "find (hitsSquare 2 3) (validMoves g)
       = Some ((plainMove 2 3)\<lparr>enPassant := True, capture := True\<rparr>)"
    using enPassant_eval unfolding Let_def g_def by blast+
  have e: "moveHistory reset = []" by (simp add: reset_def)
  from make_undo_round_trip have
    "reachable g \<and> validMoves g = fst (getValidMoves g 3 4)
      \<and> getPiece g 3 4 = Some (movedPiece Pawn White)
      \<and> find (hitsSquare 2 3) (validMoves g)
          = Some ((plainMove 2 3)\<lparr>enPassant := True, capture := True\<rparr>) \<longrightarrow>
      fst (makeMove g 3 4 2 3 None) = Inr True
      \<and> undoMove (snd (makeMove g 3 4 2 3 None)) = (Inr True, g)"
    and "moveHistory reset = [] \<longrightarrow> undoMove reset = (Inr False, reset)"
    by blast+
  with r h e show ?thesis
    unfolding Let_def g_def by blast
qed

section \<open>The search agent\<close>

text \<open>
  C9. For an agent of any difficulty and every game state, \<open>getBestMove\<close> returns with the
  state it was given: board, turn, en-passant target, history, captured lists, \<open>gameOver\<close>,
  \<open>winner\<close>, \<open>isCheck\<close> and the rest are as before the call. It returns \<open>null\<close> exactly
  when no square holds a piece with a valid move for the side to move. The two draws of
  \<open>Math.random\<close> are parameters; the second, which picks the random move, lies in the
  range from 0 up to but not including 1.
\<close>

theorem getBestMove_frame_and_sentinel:
  assumes "0 \<le> random2" and "random2 < 1"
  shows "snd (getBestMove (setDifficulty d) random1 random2 g) = g
         \<and> (fst (getBestMove (setDifficulty d) random1 random2 g) = None
              \<longleftrightarrow> (\<forall>row col. fst (getValidMoves g row col) = []))"
  using getBestMove_frame getBestMove_None[OF assms] no_valid_moves_iff by simp

theorem getBestMove_frame_and_sentinel_witness:
  "(0 :: real) \<le> 1 / 2 \<and> (1 / 2 :: real) < 1
   \<and> snd (getBestMove (setDifficulty ''easy'') (1 / 2) (1 / 2) reset) = reset
   \<and> fst (getBestMove (setDifficulty ''easy'') (1 / 2) (1 / 2) reset) \<noteq> None
   \<and> fst (getValidMoves reset 6 4) \<noteq> []"
proof -
  have m: "fst (getValidMoves reset 6 4) \<noteq> []"
    by code_simp
  have r: "(0 :: real) \<le> 1 / 2" "(1 / 2 :: real) < 1" by simp_all
  from getBestMove_frame_and_sentinel[OF r] have
    "snd (getBestMove (setDifficulty ''easy'') (1 / 2) (1 / 2) reset) = reset"
    and "fst (getBestMove (setDifficulty ''easy'') (1 / 2) (1 / 2) reset) = None
          \<longleftrightarrow> (\<forall>row col. fst (getValidMoves reset row col) = [])"
    by blast+
  with m r show ?thesis by blast
qed

section \<open>The legality filter\<close>

text \<open>
  C3. In every reachable state, let \<open>m\<close> be any move that \<open>getValidMoves\<close> returns for a
  square, and let the list of that square be the stored one, as it is when the move is
  played. Then the square holds a piece of the side to move; the board on which
  \<open>simulateMove\<close> has played \<open>m\<close>, with the en-passant removal and the castling rook
  relocation, does not have that side's king attacked; \<open>makeMove\<close> to the destination of
  \<open>m\<close> succeeds; and in the state \<open>makeMove\<close> leaves, the king of the side that moved is
  not attacked. A promotion may choose any piece but a king (the dialog offers queen, rook,
  bishop and knight).
\<close>

theorem legal_move_keeps_king_safe:
  assumes "reachable g"
    and "validMoves g = fst (getValidMoves g fromRow fromCol)"
    and "m \<in> set (fst (getValidMoves g fromRow fromCol))"
    and "promo \<noteq> Some King"
  shows "\<exists>piece. getPiece g fromRow fromCol = Some piece \<and> pcolor piece = currentTurn g
           \<and> \<not> isInCheck (simulateMove g fromRow fromCol (mrow m) (mcol m) (Some m))
                 (currentTurn g)
           \<and> fst (makeMove g fromRow fromCol (mrow m) (mcol m) promo) = Inr True
           \<and> \<not> isInCheck (snd (makeMove g fromRow fromCol (mrow m) (mcol m) promo))
                 (currentTurn g)"
proof -
  from assms(3) have "m \<in> set (legalMoves g fromRow fromCol)" by (simp add: getValidMoves_eq)
  then obtain piece where p: "getPiece g fromRow fromCol = Some piece"
    and c: "pcolor piece = currentTurn g"
    and la: "legalAfter g fromRow fromCol piece m"
    by (rule legalMoves_raw)
  have wf: "wfBoard (board g)"
    using reachable_consistent[OF assms(1)] by (simp add: consistent_def)
  from assms(2,3) have "m \<in> set (validMoves g)" by simp
  then obtain m' where f: "find (hitsSquare (mrow m) (mcol m)) (validMoves g) = Some m'"
    by (rule listed_found)
  have ok: "fst (makeMove g fromRow fromCol (mrow m) (mcol m) promo) = Inr True"
    by (rule makeMove_legal_destination(1)[OF wf assms(2) p f])
  have safe: "\<not> isInCheck (snd (makeMove g fromRow fromCol (mrow m) (mcol m) promo))
                 (pcolor piece)"
    by (rule makeMove_legal_king_safe[OF wf assms(2) p f assms(4)])
  show ?thesis
    using p c la ok safe by (simp add: legalAfter_def)
qed

theorem legal_move_keeps_king_safe_witness:
  "(let g = selectPiece enPassantPosition 3 4;
        m = (plainMove 2 3)\<lparr>enPassant := True, capture := True\<rparr>
    in reachable g
       \<and> validMoves g = fst (getValidMoves g 3 4)
       \<and> m \<in> set (fst (getValidMoves g 3 4))
       \<and> getPiece g 3 4 = Some (movedPiece Pawn White)
       \<and> currentTurn g = White
       \<and> \<not> isInCheck (simulateMove g 3 4 2 3 (Some m)) White
       \<and> fst (makeMove g 3 4 2 3 None) = Inr True
       \<and> getPiece (snd (makeMove g 3 4 2 3 None)) 3 3 = None
       \<and> \<not> isInCheck (snd (makeMove g 3 4 2 3 None)) White)"
proof -
  define g where "g = selectPiece enPassantPosition 3 4"
  define m where "m = (plainMove 2 3)\<lparr>enPassant := True, capture := True\<rparr>"
  have r: "reachable g"
    unfolding g_def enPassantPosition_def
    by (intro reachable_select reachable_playMove reachable_reset)
  have h: "validMoves g = fst (getValidMoves g 3 4)"
    "getPiece g 3 4 = Some (movedPiece Pawn White)"
    "find (hitsSquare 2 3) (validMoves g) = Some m"
    "getPiece (snd (makeMove g 3 4 2 3 None)) 3 3 = None"
    using enPassant_eval unfolding Let_def g_def m_def by blast+
  have mem: "m \<in> set (fst (getValidMoves g 3 4))"
    using find_hits(1)[OF h(3)] h(1) by simp
  have rc: "mrow m = 2" "mcol m = 3" by (simp_all add: m_def)
  have pr: "(None :: piece_type option) \<noteq> Some King" by simp
  from legal_move_keeps_king_safe[OF r h(1) mem pr] obtain piece where
    k: "getPiece g 3 4 = Some piece" "pcolor piece = currentTurn g"
      "\<not> isInCheck (simulateMove g 3 4 2 3 (Some m)) (currentTurn g)"
      "fst (makeMove g 3 4 2 3 None) = Inr True"
      "\<not> isInCheck (snd (makeMove g 3 4 2 3 None)) (currentTurn g)"
    unfolding rc by blast
  from k(1) h(2) have "piece = movedPiece Pawn White" by simp
  with k(2) have w: "currentTurn g = White"
    by (simp add: movedPiece_def createPiece_def)
  show ?thesis
    unfolding Let_def g_def[symmetric] m_def[symmetric]
    using r h(1,2,4) mem k(3,4,5) w by simp
qed

end
